theory Spec2Isabelle
  imports Main
begin

section \<open>Python values used by the backend\<close>

text \<open>
  Exceptions are values.  \<open>HTTPException\<close> carries the status code and the detail string
  given at the \<open>raise\<close>; the other constructors are the built-in exceptions that the
  modelled expressions can raise.
\<close>

datatype exn =
    HTTPException nat string
  | ZeroDivisionError
  | OverflowError

text \<open>
  A Python \<open>str\<close> is a sequence of code points.  The model writes it as a \<open>string\<close>, one
  \<open>char\<close> for each code point, and so covers the code points up to U+00FF.
\<close>

definition truthy :: "string \<Rightarrow> bool" where
  "truthy s \<longleftrightarrow> s \<noteq> []"

section \<open>datetime\<close>

text \<open>
  A \<open>datetime\<close> in UTC: the calendar date and the time of day, the latter as the number
  of microseconds since midnight (hour, minute, second and microsecond in one number; no
  operation of the program changes it).  A naive timestamp read from the table is taken
  as UTC, which is what \<open>ensure_aware\<close> does.
\<close>

record datetime =
  year :: nat
  month :: nat
  day :: nat
  tod :: nat

definition MINYEAR :: nat where "MINYEAR = 1"
definition MAXYEAR :: nat where "MAXYEAR = 9999"

definition is_leap :: "nat \<Rightarrow> bool" where
  "is_leap y \<longleftrightarrow> y mod 4 = 0 \<and> (y mod 100 \<noteq> 0 \<or> y mod 400 = 0)"

definition days_in_month :: "nat \<Rightarrow> nat \<Rightarrow> nat" where
  "days_in_month y m =
     (if m = 2 then (if is_leap y then 29 else 28)
      else if m = 4 \<or> m = 6 \<or> m = 9 \<or> m = 11 then 30 else 31)"

text \<open>The day before and the day after, in the proleptic Gregorian calendar.\<close>

definition prev_day :: "datetime \<Rightarrow> datetime" where
  "prev_day t =
     (if 1 < day t then t\<lparr>day := day t - 1\<rparr>
      else if 1 < month t then t\<lparr>month := month t - 1, day := days_in_month (year t) (month t - 1)\<rparr>
      else t\<lparr>year := year t - 1, month := 12, day := 31\<rparr>)"

definition next_day :: "datetime \<Rightarrow> datetime" where
  "next_day t =
     (if day t < days_in_month (year t) (month t) then t\<lparr>day := day t + 1\<rparr>
      else if month t < 12 then t\<lparr>month := month t + 1, day := 1\<rparr>
      else t\<lparr>year := year t + 1, month := 1, day := 1\<rparr>)"

text \<open>
  The proleptic Gregorian ordinal of the date (\<open>toordinal\<close>): day 1 is 0001-01-01.
\<close>

definition days_before_year :: "nat \<Rightarrow> nat" where
  "days_before_year y = (y - 1) * 365 + (y - 1) div 4 - (y - 1) div 100 + (y - 1) div 400"

definition days_before_month :: "nat \<Rightarrow> nat \<Rightarrow> nat" where
  "days_before_month y m = sum_list (map (days_in_month y) [1..<m])"

definition toordinal :: "datetime \<Rightarrow> nat" where
  "toordinal t = days_before_year (year t) + days_before_month (year t) (month t) + day t"

definition MAXORDINAL :: nat where
  "MAXORDINAL = 3652059"

text \<open>
  \<open>t - timedelta(days=n)\<close> and \<open>t + timedelta(days=n)\<close>: the date moves by \<open>n\<close> days,
  the time of day stays, and a result outside 0001-01-01 .. 9999-12-31 raises
  \<open>OverflowError\<close>.
\<close>

definition sub_days :: "datetime \<Rightarrow> nat \<Rightarrow> exn + datetime" where
  "sub_days t n =
     (if toordinal t \<le> n then Inl OverflowError else Inr ((prev_day ^^ n) t))"

definition add_days :: "datetime \<Rightarrow> nat \<Rightarrow> exn + datetime" where
  "add_days t n =
     (if MAXORDINAL < toordinal t + n then Inl OverflowError else Inr ((next_day ^^ n) t))"

text \<open>\<open>t.replace(day=1)\<close>; day 1 exists in every month, so it never raises.\<close>

definition replace_day1 :: "datetime \<Rightarrow> datetime" where
  "replace_day1 t = t\<lparr>day := 1\<rparr>"

text \<open>Comparison of two UTC datetimes: by date, then by time of day.\<close>

definition dt_le :: "datetime \<Rightarrow> datetime \<Rightarrow> bool" where
  "dt_le a b \<longleftrightarrow>
     year a < year b \<or> (year a = year b \<and>
       (month a < month b \<or> (month a = month b \<and>
         (day a < day b \<or> (day a = day b \<and> tod a \<le> tod b)))))"

text \<open>\<open>strftime("%b")\<close> in the C locale.\<close>

definition month_abbr :: "nat \<Rightarrow> string" where
  "month_abbr m =
     [''Jan'', ''Feb'', ''Mar'', ''Apr'', ''May'', ''Jun'',
      ''Jul'', ''Aug'', ''Sep'', ''Oct'', ''Nov'', ''Dec''] ! (m - 1)"

section \<open>The Draft table\<close>

text \<open>
  Modelled from the spec: the table class \<open>Draft\<close> of \<open>models.py\<close>, which is not among the
  sources.  Its columns are those of the data model (section 3 of the specification); a
  row created without them gets \<open>status = "draft"\<close> and no \<open>sent_at\<close>, and its \<open>id\<close> and
  \<open>created_at\<close> are set at insert.
\<close>

record draft =
  draft_id :: int
  prompt :: string
  content :: string
  recipient :: string
  tone :: string
  dtype :: string
  status :: string
  created_at :: datetime
  sent_at :: "datetime option"
  subject :: "string option"

text \<open>
  \<open>ensure_aware\<close>: a timestamp without time zone is given UTC, one with a time zone is
  returned as it is.  Every \<open>datetime\<close> of the model is in UTC already.
\<close>

definition ensure_aware :: "datetime \<Rightarrow> datetime" where
  "ensure_aware dt = dt"

section \<open>Statistics (\<open>GET /stats\<close>)\<close>

text \<open>
  The floating-point operations the handler uses are parameters of the model: \<open>truediv\<close>
  is \<open>int / int\<close> for a divisor other than zero, \<open>mul_int\<close> is \<open>float * int\<close> and
  \<open>round_nd\<close> is \<open>round(float, ndigits)\<close>.
\<close>

datatype 'f pynum = PyInt int | PyFloat 'f

record 'f float_ops =
  truediv :: "int \<Rightarrow> int \<Rightarrow> 'f"
  mul_int :: "'f \<Rightarrow> int \<Rightarrow> 'f"
  round_nd :: "'f \<Rightarrow> int \<Rightarrow> 'f"

definition py_truediv :: "'f float_ops \<Rightarrow> int \<Rightarrow> int \<Rightarrow> exn + 'f" where
  "py_truediv fl a b = (if b = 0 then Inl ZeroDivisionError else Inr (truediv fl a b))"

text \<open>\<open>round(x, ndigits)\<close> with \<open>ndigits \<ge> 0\<close>: an \<open>int\<close> is returned unchanged.\<close>

definition py_round :: "'f float_ops \<Rightarrow> 'f pynum \<Rightarrow> int \<Rightarrow> 'f pynum" where
  "py_round fl x nd = (case x of PyInt n \<Rightarrow> PyInt n | PyFloat f \<Rightarrow> PyFloat (round_nd fl f nd))"

text \<open>\<open>sum(1 for d in xs if P(d))\<close>\<close>

definition count1 :: "('a \<Rightarrow> bool) \<Rightarrow> 'a list \<Rightarrow> int" where
  "count1 P xs = sum_list (map (\<lambda>d. 1) (filter P xs))"

text \<open>
  A \<open>dict\<close> keeps its keys in insertion order: it is an association list with distinct
  keys.  Storing under a key that is present replaces the value in place; a new key goes
  to the end.
\<close>

fun dict_set :: "('k \<times> 'v) list \<Rightarrow> 'k \<Rightarrow> 'v \<Rightarrow> ('k \<times> 'v) list" where
  "dict_set [] k v = [(k, v)]"
| "dict_set ((k', v') # kvs) k v =
     (if k' = k then (k', v) # kvs else (k', v') # dict_set kvs k v)"

definition dict_get :: "('k \<times> 'v) list \<Rightarrow> 'k \<Rightarrow> 'v \<Rightarrow> 'v" where
  "dict_get kvs k dflt = (case map_of kvs k of None \<Rightarrow> dflt | Some v \<Rightarrow> v)"

text \<open>\<open>dict(pairs)\<close>\<close>

definition py_dict :: "('k \<times> 'v) list \<Rightarrow> ('k \<times> 'v) list" where
  "py_dict pairs = foldl (\<lambda>m (k, v). dict_set m k v) [] pairs"

text \<open>\<open>Counter(xs)\<close>: for each element in turn, \<open>self[elem] = self.get(elem, 0) + 1\<close>.\<close>

definition Counter :: "'k list \<Rightarrow> ('k \<times> int) list" where
  "Counter xs = foldl (\<lambda>m x. dict_set m x (dict_get m x 0 + 1)) [] xs"

text \<open>
  \<open>most_common()\<close> is \<open>sorted(self.items(), key=itemgetter(1), reverse=True)\<close>: a stable
  sort by descending count, in which items of equal count keep their order.
\<close>

definition most_common :: "('k \<times> int) list \<Rightarrow> ('k \<times> int) list" where
  "most_common items = sort_key (\<lambda>kc. - snd kc) items"

record month_entry =
  m_month :: string
  m_sent :: int
  m_drafts :: int

record 'f stats_report =
  total_sent :: int
  total_drafts :: int
  total_failed :: int
  success_rate :: "'f pynum"
  recent_activity :: int
  popular_tones :: "(string \<times> int) list"
  monthly_stats :: "month_entry list"

text \<open>
  Lines 183 to 185: the bounds \<open>month_start\<close> and \<open>month_end\<close> of iteration \<open>i\<close>, from the
  clock reading \<open>now\<close> of that iteration.
\<close>

definition month_window :: "datetime \<Rightarrow> nat \<Rightarrow> exn + (datetime \<times> datetime)" where
  "month_window now i =
     (case sub_days (replace_day1 now) (30 * i) of
        Inl e \<Rightarrow> Inl e
      | Inr month_start \<Rightarrow>
          (case add_days (replace_day1 month_start) 32 of
             Inl e \<Rightarrow> Inl e
           | Inr t \<Rightarrow>
               (case sub_days (replace_day1 t) 1 of
                  Inl e \<Rightarrow> Inl e
                | Inr month_end \<Rightarrow> Inr (month_start, month_end))))"

text \<open>Lines 186 to 191: the entry appended for the bounds.\<close>

definition month_entry_of :: "draft list \<Rightarrow> datetime \<times> datetime \<Rightarrow> month_entry" where
  "month_entry_of drafts w =
     (let month_start = fst w; month_end = snd w;
          month_drafts = filter (\<lambda>d. dt_le month_start (ensure_aware (created_at d))
                                     \<and> dt_le (ensure_aware (created_at d)) month_end) drafts
      in \<lparr>m_month = month_abbr (month month_start),
          m_sent = count1 (\<lambda>d. status d = ''sent'') month_drafts,
          m_drafts = count1 (\<lambda>d. status d = ''draft'') month_drafts\<rparr>)"

text \<open>
  The loop \<open>for i in range(6)\<close>.  The handler reads the clock once before the loop
  (reading 0, line 175) and once in each iteration (reading \<open>i + 1\<close>, line 183);
  \<open>clock k\<close> is reading \<open>k\<close>.
\<close>

fun monthly_loop ::
  "(nat \<Rightarrow> datetime) \<Rightarrow> draft list \<Rightarrow> nat list \<Rightarrow> month_entry list \<Rightarrow> exn + month_entry list"
where
  "monthly_loop clock drafts [] acc = Inr acc"
| "monthly_loop clock drafts (i # rest) acc =
     (case month_window (clock (Suc i)) i of
        Inl e \<Rightarrow> Inl e
      | Inr w \<Rightarrow> monthly_loop clock drafts rest (acc @ [month_entry_of drafts w]))"

definition success_rate_expr :: "'f float_ops \<Rightarrow> int \<Rightarrow> int \<Rightarrow> exn + 'f pynum" where
  "success_rate_expr fl n_sent n_emails =
     (if n_emails \<noteq> 0 then
        (case py_truediv fl n_sent n_emails of
           Inl e \<Rightarrow> Inl e
         | Inr q \<Rightarrow> Inr (PyFloat (mul_int fl q 100)))
      else Inr (PyInt 0))"

definition get_stats_body ::
  "'f float_ops \<Rightarrow> (nat \<Rightarrow> datetime) \<Rightarrow> draft list \<Rightarrow> exn + 'f stats_report"
where
  "get_stats_body fl clock drafts =
     (let n_sent = count1 (\<lambda>d. status d = ''sent'') drafts;
          n_drafts = count1 (\<lambda>d. status d = ''draft'') drafts;
          n_failed = count1 (\<lambda>d. status d = ''failed'') drafts;
          n_emails = int (length drafts)
      in case success_rate_expr fl n_sent n_emails of
           Inl e \<Rightarrow> Inl e
         | Inr rate \<Rightarrow>
             (case sub_days (clock 0) 7 of
                Inl e \<Rightarrow> Inl e
              | Inr week_ago \<Rightarrow>
                  (let recent = count1 (\<lambda>d. dt_le week_ago (ensure_aware (created_at d))) drafts;
                       tone_counter = Counter (map tone drafts);
                       tones = py_dict (most_common tone_counter)
                   in case monthly_loop clock drafts [0..<6] [] of
                        Inl e \<Rightarrow> Inl e
                      | Inr monthly \<Rightarrow>
                          Inr \<lparr>total_sent = n_sent,
                               total_drafts = n_drafts,
                               total_failed = n_failed,
                               success_rate = py_round fl rate 1,
                               recent_activity = recent,
                               popular_tones = tones,
                               monthly_stats = rev monthly\<rparr>)))"

text \<open>
  The handler: any exception of the body is answered with status 500.
\<close>

definition get_stats ::
  "'f float_ops \<Rightarrow> (nat \<Rightarrow> datetime) \<Rightarrow> draft list \<Rightarrow> exn + 'f stats_report"
where
  "get_stats fl clock drafts =
     (case get_stats_body fl clock drafts of
        Inl e \<Rightarrow> Inl (HTTPException 500 ''Error calculating stats'')
      | Inr r \<Rightarrow> Inr r)"

section \<open>String operations\<close>

text \<open>
  \<open>str.isspace\<close> on one code point, for the code points of the model: the ASCII
  whitespace and separators, U+0085 and U+00A0.
\<close>

definition is_space :: "char \<Rightarrow> bool" where
  "is_space c \<longleftrightarrow>
     (let n = (of_char c :: nat)
      in (9 \<le> n \<and> n \<le> 13) \<or> (28 \<le> n \<and> n \<le> 32) \<or> n = 133 \<or> n = 160)"

text \<open>\<open>s.strip()\<close>\<close>

definition lstrip :: "string \<Rightarrow> string" where
  "lstrip s = dropWhile is_space s"

definition rstrip :: "string \<Rightarrow> string" where
  "rstrip s = rev (dropWhile is_space (rev s))"

definition strip :: "string \<Rightarrow> string" where
  "strip s = rstrip (lstrip s)"

text \<open>\<open>s.split(sep)\<close> for a separator of one character: never the empty list.\<close>

fun split_on :: "char \<Rightarrow> string \<Rightarrow> string list" where
  "split_on sep [] = [[]]"
| "split_on sep (c # cs) =
     (if c = sep then [] # split_on sep cs
      else (case split_on sep cs of
              [] \<Rightarrow> [[c]]
            | w # ws \<Rightarrow> (c # w) # ws))"

text \<open>
  \<open>s.split()\<close>: the maximal runs of characters that are not whitespace.  \<open>cur\<close> is the
  run being read.
\<close>

fun split_ws_from :: "string \<Rightarrow> string \<Rightarrow> string list" where
  "split_ws_from cur [] = (if cur = [] then [] else [cur])"
| "split_ws_from cur (c # cs) =
     (if is_space c then (if cur = [] then split_ws_from [] cs else cur # split_ws_from [] cs)
      else split_ws_from (cur @ [c]) cs)"

definition split_ws :: "string \<Rightarrow> string list" where
  "split_ws s = split_ws_from [] s"

text \<open>\<open>sep.join(xs)\<close>\<close>

fun join :: "string \<Rightarrow> string list \<Rightarrow> string" where
  "join sep [] = []"
| "join sep [x] = x"
| "join sep (x # y # ys) = x @ sep @ join sep (y # ys)"

text \<open>\<open>s.lower()\<close>, on the code points of the model.\<close>

definition lower_char :: "char \<Rightarrow> char" where
  "lower_char c =
     (let n = (of_char c :: nat)
      in if (65 \<le> n \<and> n \<le> 90) \<or> (192 \<le> n \<and> n \<le> 222 \<and> n \<noteq> 215)
         then char_of (n + 32) else c)"

definition lower :: "string \<Rightarrow> string" where
  "lower s = map lower_char s"

definition NL :: char where
  "NL = CHR 0x0A"

section \<open>Settings (\<open>config.py\<close>)\<close>

record settings =
  smtp_host :: string
  smtp_port :: int
  smtp_username :: string
  smtp_password :: string
  email_from :: string
  smtp_timeout :: int
  email_api_key :: string
  email_api_url :: string
  email_model :: string
  email_api_configured :: bool

definition smtp_configured :: "settings \<Rightarrow> bool" where
  "smtp_configured cfg \<longleftrightarrow>
     list_all truthy [smtp_host cfg, smtp_username cfg, smtp_password cfg, email_from cfg]"

definition email_api_ready :: "settings \<Rightarrow> bool" where
  "email_api_ready cfg \<longleftrightarrow>
     email_api_configured cfg \<and> truthy (email_api_key cfg) \<and> truthy (email_api_url cfg)"

section \<open>Content generator (\<open>email_generator.py\<close>)\<close>

text \<open>
  What the call to the generation backend gives: an exception anywhere between the
  request and the reading of the answer (transport error, error status, malformed
  body), an answer without candidates, or the text of the first candidate.
\<close>

datatype api_response = ApiException | NoCandidates | CandidateText string

definition generate_email_content ::
  "settings \<Rightarrow> api_response \<Rightarrow> string \<Rightarrow> string \<Rightarrow> string option"
where
  "generate_email_content cfg resp prompt_text tone_text =
     (if \<not> email_api_ready cfg then None
      else (case resp of
              ApiException \<Rightarrow> None
            | NoCandidates \<Rightarrow> None
            | CandidateText text \<Rightarrow> Some (strip text)))"

definition friendly_tone :: "string \<Rightarrow> bool" where
  "friendly_tone tone_text \<longleftrightarrow> lower tone_text \<in> set [''friendly'', ''casual'']"

definition fallback_email :: "string \<Rightarrow> string \<Rightarrow> string" where
  "fallback_email prompt_text tone_text =
     (let greeting = (if friendly_tone tone_text then ''Hi there,'' else ''Dear Sir/Madam,'');
          closing = (if friendly_tone tone_text then ''Best,'' @ [NL] @ ''[Your Name]''
                     else ''Best regards,'' @ [NL] @ ''[Your Name]'')
      in greeting @ [NL, NL] @ prompt_text @ [NL, NL] @ closing)"

text \<open>The result dictionary \<open>{"content": ..., "subject": ...}\<close> as a pair.\<close>

definition generate_email_with_subject ::
  "settings \<Rightarrow> api_response \<Rightarrow> string \<Rightarrow> string \<Rightarrow> string \<times> string"
where
  "generate_email_with_subject cfg resp prompt_text tone_text =
     (let generated = generate_email_content cfg resp prompt_text tone_text;
          content_text = (case generated of
                            None \<Rightarrow> fallback_email prompt_text tone_text
                          | Some c \<Rightarrow> if truthy c then c else fallback_email prompt_text tone_text);
          first_line = hd (split_on NL (strip content_text));
          subject_text = (if length first_line < 80 then first_line
                          else join '' '' (take 7 (split_ws prompt_text)))
      in (content_text, subject_text))"

section \<open>Dispatcher (\<open>mailer.py\<close>)\<close>

text \<open>
  \<open>smtp_ok\<close> says whether the SMTP session inside the \<open>try\<close> (building the message,
  connecting, TLS, login, sending) ends without an exception.
\<close>

definition send_email :: "settings \<Rightarrow> bool \<Rightarrow> string \<Rightarrow> string \<Rightarrow> string \<Rightarrow> bool" where
  "send_email cfg smtp_ok to_email subject_text content_text =
     (if \<not> smtp_configured cfg then False else smtp_ok)"

section \<open>API layer (\<open>main.py\<close>)\<close>

text \<open>
  The table is the list of its rows.  \<open>session.get(Draft, i)\<close> is the row with primary
  key \<open>i\<close>, or \<open>None\<close>.  The key is a Python integer of any size and is bound to an
  \<open>INTEGER\<close> of SQLite (line 23), which holds 64 bits with sign: outside that range the
  binding raises \<open>OverflowError\<close>.  A handler returns its answer and the table as committed:
  a body that raises before \<open>session.commit()\<close> leaves the table as it was.
\<close>

type_synonym store = "draft list"

definition sqlite_integer :: "int \<Rightarrow> bool" where
  "sqlite_integer i \<longleftrightarrow> - (2 ^ 63) \<le> i \<and> i < 2 ^ 63"

definition session_get :: "store \<Rightarrow> int \<Rightarrow> exn + draft option" where
  "session_get s i =
     (if sqlite_integer i then Inr (find (\<lambda>d. draft_id d = i) s) else Inl OverflowError)"

text \<open>Committing a changed row \<open>d\<close>: it replaces the row of its primary key.\<close>

definition commit_row :: "store \<Rightarrow> draft \<Rightarrow> store" where
  "commit_row s d = map (\<lambda>r. if draft_id r = draft_id d then d else r) s"

text \<open>
  Modelled from the spec: the primary key given to an inserted row (the store owns the
  assignment, and the key is unique): one more than the largest key in the table.
\<close>

definition next_id :: "store \<Rightarrow> int" where
  "next_id s = fold max (map draft_id s) 0 + 1"

record generate_request =
  rq_prompt :: string
  rq_recipient :: string
  rq_tone :: string
  rq_type :: string

text \<open>
  \<open>POST /generate\<close>.  The new row has the six columns the handler gives and the defaults
  of the table for the others; \<open>now\<close> is the clock at insert.
\<close>

definition generate ::
  "settings \<Rightarrow> api_response \<Rightarrow> datetime \<Rightarrow> generate_request \<Rightarrow> store \<Rightarrow> (exn + draft) \<times> store"
where
  "generate cfg resp now rq s =
     (let email_data = generate_email_with_subject cfg resp (rq_prompt rq) (rq_tone rq);
          d = \<lparr>draft_id = next_id s,
               prompt = rq_prompt rq,
               content = fst email_data,
               recipient = rq_recipient rq,
               tone = rq_tone rq,
               dtype = rq_type rq,
               status = ''draft'',
               created_at = now,
               sent_at = None,
               subject = Some (snd email_data)\<rparr>
      in (Inr d, s @ [d]))"

text \<open>
  Line 128: \<open>draft.subject or draft.content.split("\n")[0][:50] if draft.content else "Email"\<close>.
  The conditional expression binds weaker than \<open>or\<close>.
\<close>

definition send_subject :: "draft \<Rightarrow> string" where
  "send_subject d =
     (if truthy (content d) then
        (case subject d of
           Some sub \<Rightarrow> if truthy sub then sub else take 50 (hd (split_on NL (content d)))
         | None \<Rightarrow> take 50 (hd (split_on NL (content d))))
      else ''Email'')"

text \<open>\<open>POST /send/{draft_id}\<close>: the body of the \<open>try\<close>, then the two \<open>except\<close> clauses.\<close>

definition send_body ::
  "settings \<Rightarrow> bool \<Rightarrow> datetime \<Rightarrow> int \<Rightarrow> store \<Rightarrow> (exn + (string \<times> string) list) \<times> store"
where
  "send_body cfg smtp_ok now i s =
     (case session_get s i of
        Inl e \<Rightarrow> (Inl e, s)
      | Inr None \<Rightarrow> (Inl (HTTPException 404 ''Draft not found''), s)
      | Inr (Some d) \<Rightarrow>
          (let subject_text = send_subject d;
               success = send_email cfg smtp_ok (recipient d) subject_text (content d)
           in if success then
                (Inr [(''status'', ''sent''), (''message'', ''Email sent successfully'')],
                 commit_row s (d\<lparr>status := ''sent'', sent_at := Some now\<rparr>))
              else
                (Inl (HTTPException 500 ''Failed to send email''),
                 commit_row s (d\<lparr>status := ''failed''\<rparr>))))"

definition send ::
  "settings \<Rightarrow> bool \<Rightarrow> datetime \<Rightarrow> int \<Rightarrow> store \<Rightarrow> (exn + (string \<times> string) list) \<times> store"
where
  "send cfg smtp_ok now i s =
     (case send_body cfg smtp_ok now i s of
        (Inl (HTTPException code detail), s') \<Rightarrow> (Inl (HTTPException code detail), s')
      | (Inl e, s') \<Rightarrow> (Inl (HTTPException 500 ''Internal server error''), s')
      | (Inr r, s') \<Rightarrow> (Inr r, s'))"

text \<open>
  \<open>DELETE /emails/{draft_id}\<close>.  The only \<open>except\<close> clause is \<open>except Exception\<close>, and
  \<open>HTTPException\<close> is an \<open>Exception\<close>.
\<close>

definition delete_email_body :: "int \<Rightarrow> store \<Rightarrow> (exn + (string \<times> string) list) \<times> store" where
  "delete_email_body i s =
     (case session_get s i of
        Inl e \<Rightarrow> (Inl e, s)
      | Inr None \<Rightarrow> (Inl (HTTPException 404 ''Draft not found''), s)
      | Inr (Some d) \<Rightarrow>
          (Inr [(''message'', ''Email deleted successfully'')],
           filter (\<lambda>r. draft_id r \<noteq> draft_id d) s))"

definition delete_email :: "int \<Rightarrow> store \<Rightarrow> (exn + (string \<times> string) list) \<times> store" where
  "delete_email i s =
     (case delete_email_body i s of
        (Inl e, s') \<Rightarrow> (Inl (HTTPException 500 ''Error deleting email''), s')
      | (Inr r, s') \<Rightarrow> (Inr r, s'))"

text \<open>\<open>POST /update_draft/{draft_id}\<close>, with the same single \<open>except Exception\<close>.\<close>

definition update_draft_body ::
  "int \<Rightarrow> string \<Rightarrow> store \<Rightarrow> (exn + (string \<times> string) list) \<times> store"
where
  "update_draft_body i new_content s =
     (case session_get s i of
        Inl e \<Rightarrow> (Inl e, s)
      | Inr None \<Rightarrow> (Inl (HTTPException 404 ''Draft not found''), s)
      | Inr (Some d) \<Rightarrow>
          (Inr [(''message'', ''Draft updated'')], commit_row s (d\<lparr>content := new_content\<rparr>)))"

definition update_draft ::
  "int \<Rightarrow> string \<Rightarrow> store \<Rightarrow> (exn + (string \<times> string) list) \<times> store"
where
  "update_draft i new_content s =
     (case update_draft_body i new_content s of
        (Inl e, s') \<Rightarrow> (Inl (HTTPException 500 ''Error updating draft''), s')
      | (Inr r, s') \<Rightarrow> (Inr r, s'))"

text \<open>
  The requests that can reach the table, and what the world answers while one is
  handled: the generation backend, the SMTP session, the clock.  \<open>GET /emails\<close> and
  \<open>GET /stats\<close> only read.
\<close>

datatype request =
    Generate generate_request
  | Send int
  | GetEmails
  | GetStats
  | DeleteEmail int
  | UpdateDraft int string

record world =
  w_api :: api_response
  w_smtp_ok :: bool
  w_now :: datetime

fun step :: "settings \<Rightarrow> store \<Rightarrow> world \<times> request \<Rightarrow> store" where
  "step cfg s (w, Generate rq) = snd (generate cfg (w_api w) (w_now w) rq s)"
| "step cfg s (w, Send i) = snd (send cfg (w_smtp_ok w) (w_now w) i s)"
| "step cfg s (w, GetEmails) = s"
| "step cfg s (w, GetStats) = s"
| "step cfg s (w, DeleteEmail i) = snd (delete_email i s)"
| "step cfg s (w, UpdateDraft i c) = snd (update_draft i c s)"

definition run :: "settings \<Rightarrow> store \<Rightarrow> (world \<times> request) list \<Rightarrow> store" where
  "run cfg s evs = foldl (step cfg) s evs"

text \<open>The HTTP status of an answer: 200 unless an \<open>HTTPException\<close> says otherwise.\<close>

definition status_code :: "exn + 'a \<Rightarrow> nat" where
  "status_code r = (case r of Inl (HTTPException code detail) \<Rightarrow> code | Inl e \<Rightarrow> 500 | Inr v \<Rightarrow> 200)"

section \<open>Concrete values used in the examples\<close>

definition t_2024_03_15 :: datetime where
  "t_2024_03_15 = \<lparr>year = 2024, month = 3, day = 15, tod = 36000000000\<rparr>"

definition t_2024_01_15 :: datetime where
  "t_2024_01_15 = \<lparr>year = 2024, month = 1, day = 15, tod = 0\<rparr>"

definition example_draft :: draft where
  "example_draft =
     \<lparr>draft_id = 1, prompt = ''renew license'', content = ''Hello Bob,'' @ [NL] @ ''please renew.'',
      recipient = ''bob@example.org'', tone = ''formal'', dtype = ''general'', status = ''draft'',
      created_at = t_2024_01_15, sent_at = None, subject = Some ''License''\<rparr>"

definition unconfigured :: settings where
  "unconfigured =
     \<lparr>smtp_host = [], smtp_port = 587, smtp_username = [], smtp_password = [], email_from = [],
      smtp_timeout = 30, email_api_key = [], email_api_url = [],
      email_model = ''gemini-2.0-flash'', email_api_configured = False\<rparr>"

definition smtp_settings :: settings where
  "smtp_settings =
     unconfigured\<lparr>smtp_host := ''smtp.example.org'', smtp_username := ''user'',
                  smtp_password := ''secret'', email_from := ''me@example.org''\<rparr>"

definition example_request :: generate_request where
  "example_request =
     \<lparr>rq_prompt = ''renew license'', rq_recipient = ''bob@example.org'',
      rq_tone = ''formal'', rq_type = ''general''\<rparr>"

definition world_ok :: world where
  "world_ok = \<lparr>w_api = ApiException, w_smtp_ok = True, w_now = t_2024_01_15\<rparr>"

definition world_down :: world where
  "world_down = \<lparr>w_api = ApiException, w_smtp_ok = False, w_now = t_2024_03_15\<rparr>"

section \<open>Well-formed dates and clocks\<close>

text \<open>A date that exists in the calendar.\<close>

definition valid_date :: "datetime \<Rightarrow> bool" where
  "valid_date t \<longleftrightarrow>
     1 \<le> year t \<and> 1 \<le> month t \<and> month t \<le> 12 \<and> 1 \<le> day t
     \<and> day t \<le> days_in_month (year t) (month t)"

text \<open>
  The seven clock readings of one call of the statistics handler are dates of the
  calendar in the years 2 to 9998, where the date arithmetic of the handler stays inside
  the range of \<open>datetime\<close>.
\<close>

definition clock_in_range :: "(nat \<Rightarrow> datetime) \<Rightarrow> bool" where
  "clock_in_range clock \<longleftrightarrow>
     list_all (\<lambda>k. valid_date (clock k) \<and> 1 < year (clock k) \<and> year (clock k) < 9999) [0..<7]"

text \<open>The bounds that lines 183 to 185 compute when nothing overflows.\<close>

definition month_start_of :: "datetime \<Rightarrow> nat \<Rightarrow> datetime" where
  "month_start_of now i = (prev_day ^^ (30 * i)) (replace_day1 now)"

definition month_end_of :: "datetime \<Rightarrow> nat \<Rightarrow> datetime" where
  "month_end_of now i =
     prev_day (replace_day1 ((next_day ^^ 32) (replace_day1 (month_start_of now i))))"

text \<open>
  An instance of the floating-point parameters for the examples: the quotient is kept as
  the pair of numerator and denominator, and is never rounded.
\<close>

definition pair_ops :: "(int \<times> int) float_ops" where
  "pair_ops =
     \<lparr>truediv = (\<lambda>a b. (a, b)), mul_int = (\<lambda>q n. (fst q * n, snd q)), round_nd = (\<lambda>q nd. q)\<rparr>"

definition t_2024_03_01 :: datetime where
  "t_2024_03_01 = \<lparr>year = 2024, month = 3, day = 1, tod = 0\<rparr>"

definition draft_january :: draft where
  "draft_january = example_draft\<lparr>status := ''sent'', created_at := t_2024_01_15\<rparr>"

definition draft_march :: draft where
  "draft_march = example_draft\<lparr>draft_id := 2, status := ''sent'', created_at := t_2024_03_01\<rparr>"

text \<open>
  The current calendar month and the five before it, oldest first, as month numbers and
  as labels: what the specification says the six entries cover.
\<close>

definition trailing_months :: "nat \<Rightarrow> nat list" where
  "trailing_months m = map (\<lambda>k. (m + 11 - k) mod 12 + 1) [5, 4, 3, 2, 1, 0]"

text \<open>
  The tones in the order in which they are first met.
\<close>

definition first_seen :: "'a list \<Rightarrow> 'a list" where
  "first_seen xs = rev (remdups (rev xs))"

text \<open>
  A call of the statistics handler during which the month ends: the readings of line 175
  and of the first loop iteration are taken on 31 March 2024, one microsecond before
  midnight, and the five later readings on 1 April 2024.
\<close>

definition t_2024_03_31 :: datetime where
  "t_2024_03_31 = \<lparr>year = 2024, month = 3, day = 31, tod = 86399999999\<rparr>"

definition t_2024_04_01 :: datetime where
  "t_2024_04_01 = \<lparr>year = 2024, month = 4, day = 1, tod = 0\<rparr>"

definition month_turn_clock :: "nat \<Rightarrow> datetime" where
  "month_turn_clock k = (if k \<le> 1 then t_2024_03_31 else t_2024_04_01)"

section \<open>Facts about the string operations\<close>

lemma split_on_not_Nil: "split_on sep s \<noteq> []"
  by (induction s) (auto split: list.splits)

lemma hd_split_on: "hd (split_on sep s) = takeWhile (\<lambda>c. c \<noteq> sep) s"
  by (induction s) (auto simp: split_on_not_Nil split: list.splits)

section \<open>The subject of a dispatched draft\<close>



section \<open>Not-found answers\<close>

text \<open>
  C2.  The claim is that a request for a draft id that is not in the table is answered
  with status 404 by update, delete and send.  The handlers of update and delete raise the
  404 inside a \<open>try\<close> whose only handler catches every exception and answers 500; only
  the send handler re-raises it.  Evaluated on the empty table and id 7.
\<close>

theorem update_draft_missing_id_is_500:
  "fst (update_draft 7 ''new text'' []) = Inl (HTTPException 500 ''Error updating draft'')
   \<and> status_code (fst (update_draft 7 ''new text'' [])) = 500
   \<and> status_code (fst (delete_email 7 [])) = 500
   \<and> status_code (fst (send cfg smtp_ok now 7 [])) = 404"
  by (simp add: update_draft_def update_draft_body_def delete_email_def delete_email_body_def
      send_def send_body_def session_get_def sqlite_integer_def status_code_def)

section \<open>Content generator\<close>

lemma last_dropWhile: "dropWhile P xs \<noteq> [] \<Longrightarrow> last (dropWhile P xs) = last xs"
  by (induction xs) (auto split: if_splits)

lemma strip_Nil: "strip [] = []"
  by (simp add: strip_def rstrip_def lstrip_def)

lemma strip_ends:
  assumes "strip s \<noteq> []"
  shows "\<not> is_space (hd (strip s)) \<and> \<not> is_space (last (strip s))"
proof -
  define y where "y = dropWhile is_space s"
  define z where "z = dropWhile is_space (rev y)"
  have s: "strip s = rev z" by (simp add: strip_def rstrip_def lstrip_def y_def z_def)
  with assms have z: "z \<noteq> []" by simp
  then have y: "y \<noteq> []" by (auto simp: z_def)
  have "\<not> is_space (hd z)" using z unfolding z_def by (rule hd_dropWhile)
  moreover have "last z = last (rev y)" using z unfolding z_def by (rule last_dropWhile)
  moreover have "\<not> is_space (hd y)" using y unfolding y_def by (rule hd_dropWhile)
  ultimately show ?thesis using z y by (simp add: s hd_rev last_rev)
qed

lemma strip_fixed:
  assumes "x \<noteq> []" "\<not> is_space (hd x)" "\<not> is_space (last x)"
  shows "strip x = x"
proof -
  have a: "dropWhile is_space x = x" using assms by (cases x) auto
  have b: "dropWhile is_space (rev x) = rev x"
    using assms by (cases "rev x") (auto simp: hd_rev [symmetric] simp del: hd_rev)
  show ?thesis by (simp add: strip_def rstrip_def lstrip_def a b)
qed

lemma strip_strip: "strip (strip s) = strip s"
proof (cases "strip s = []")
  case True
  then show ?thesis by (simp add: strip_Nil)
next
  case False
  then show ?thesis using strip_ends [OF False] by (intro strip_fixed) auto
qed

lemma not_space_simps:
  "\<not> is_space CHR ''H''" "\<not> is_space CHR ''D''" "\<not> is_space CHR '']''"
  by (simp_all add: is_space_def)

lemma strip_fallback: "strip (fallback_email p t) = fallback_email p t"
  by (rule strip_fixed) (auto simp: fallback_email_def Let_def not_space_simps)

lemma content_stripped:
  "strip (fst (generate_email_with_subject cfg resp p t)) =
     fst (generate_email_with_subject cfg resp p t)"
  by (auto simp: generate_email_with_subject_def Let_def generate_email_content_def strip_fallback
      strip_strip split: option.splits api_response.splits)

lemma lower_examples:
  "lower ''formal'' = ''formal''" "lower ''Friendly'' = ''friendly''"
  "lower ''casual'' = ''casual''" "lower ''CASUAL'' = ''casual''"
  by code_simp+

text \<open>
  C7.  When the generation backend is not configured, raises, answers without candidates
  or answers with a text that is empty once stripped, the content is exactly the greeting,
  a blank line, the raw prompt, a blank line and the closing.  A tone whose lower-case form
  is \<open>friendly\<close> or \<open>casual\<close> selects \<open>Hi there,\<close> and \<open>Best,\<close>, newline, \<open>[Your Name]\<close>;
  every other tone selects \<open>Dear Sir/Madam,\<close> and \<open>Best regards,\<close>, newline,
  \<open>[Your Name]\<close>.  So the tone \<open>formal\<close> gives a content that begins with
  \<open>Dear Sir/Madam,\<close> and ends with \<open>Best regards,\<close>, newline, \<open>[Your Name]\<close>, and the tones
  \<open>Friendly\<close> and \<open>casual\<close> give the informal greeting and closing.
\<close>

theorem fallback_content:
  assumes "\<not> email_api_ready cfg \<or> resp = ApiException \<or> resp = NoCandidates
           \<or> (\<exists>text. resp = CandidateText text \<and> strip text = [])"
  shows "fst (generate_email_with_subject cfg resp p t) =
           (if lower t = ''friendly'' \<or> lower t = ''casual''
            then ''Hi there,'' @ [NL, NL] @ p @ [NL, NL] @ ''Best,'' @ [NL] @ ''[Your Name]''
            else ''Dear Sir/Madam,'' @ [NL, NL] @ p @ [NL, NL]
                 @ ''Best regards,'' @ [NL] @ ''[Your Name]'')
         \<and> fst (generate_email_with_subject cfg resp p ''formal'') =
             ''Dear Sir/Madam,'' @ [NL, NL] @ p @ [NL, NL]
             @ ''Best regards,'' @ [NL] @ ''[Your Name]''
         \<and> fst (generate_email_with_subject cfg resp p ''Friendly'') =
             ''Hi there,'' @ [NL, NL] @ p @ [NL, NL] @ ''Best,'' @ [NL] @ ''[Your Name]''
         \<and> fst (generate_email_with_subject cfg resp p ''casual'') =
             ''Hi there,'' @ [NL, NL] @ p @ [NL, NL] @ ''Best,'' @ [NL] @ ''[Your Name]''"
proof -
  have g: "fst (generate_email_with_subject cfg resp p u) =
           (if lower u = ''friendly'' \<or> lower u = ''casual''
            then ''Hi there,'' @ [NL, NL] @ p @ [NL, NL] @ ''Best,'' @ [NL] @ ''[Your Name]''
            else ''Dear Sir/Madam,'' @ [NL, NL] @ p @ [NL, NL]
                 @ ''Best regards,'' @ [NL] @ ''[Your Name]'')" for u
    using assms
    by (auto simp: generate_email_with_subject_def Let_def generate_email_content_def
        fallback_email_def truthy_def friendly_tone_def
        split: option.splits api_response.splits)
  show ?thesis
    unfolding g [of t] g [of "''formal''"] g [of "''Friendly''"] g [of "''casual''"]
    by (simp add: lower_examples)
qed

theorem fallback_content_witness:
  "\<not> email_api_ready unconfigured
   \<and> fst (generate_email_with_subject unconfigured ApiException ''renew license'' ''formal'') =
       ''Dear Sir/Madam,'' @ [NL, NL] @ ''renew license'' @ [NL, NL]
       @ ''Best regards,'' @ [NL] @ ''[Your Name]''
   \<and> fst (generate_email_with_subject unconfigured ApiException ''renew license'' ''Friendly'') =
       ''Hi there,'' @ [NL, NL] @ ''renew license'' @ [NL, NL] @ ''Best,'' @ [NL] @ ''[Your Name]''"
proof -
  have h: "\<not> email_api_ready unconfigured"
    by (simp add: email_api_ready_def unconfigured_def)
  then have "\<not> email_api_ready unconfigured \<or> ApiException = ApiException
      \<or> ApiException = NoCandidates \<or> (\<exists>text. ApiException = CandidateText text \<and> strip text = [])"
    by simp
  from fallback_content [OF this, of "''renew license''" "''formal''"] h show ?thesis by blast
qed

text \<open>
  C8.  The subject is derived from the first line of the resulting content (the part
  before the first newline): that line itself when it has fewer than 80 characters, and
  otherwise the first 7 whitespace-separated tokens of the prompt joined by single spaces.
  The generator takes the first line of the stripped content; the content it produces is
  always its own stripped form.
\<close>

theorem subject_derivation:
  "snd (generate_email_with_subject cfg resp p t) =
     (let first_line = takeWhile (\<lambda>c. c \<noteq> NL) (fst (generate_email_with_subject cfg resp p t))
      in if length first_line < 80 then first_line else join '' '' (take 7 (split_ws p)))"
proof -
  have "snd (generate_email_with_subject cfg resp p t) =
     (let first_line = hd (split_on NL (strip (fst (generate_email_with_subject cfg resp p t))))
      in if length first_line < 80 then first_line else join '' '' (take 7 (split_ws p)))"
    by (simp add: generate_email_with_subject_def Let_def)
  then show ?thesis by (simp add: content_stripped hd_split_on)
qed


section \<open>Lifecycle of the status\<close>

lemma session_get_range: "session_get s i = Inr v \<Longrightarrow> sqlite_integer i"
  by (simp add: session_get_def split: if_splits)

lemma session_get_id: "session_get s i = Inr (Some d) \<Longrightarrow> draft_id d = i"
  unfolding session_get_def by (induction s) (auto split: if_splits)

lemma session_get_commit_same:
  "session_get s i = Inr (Some d) \<Longrightarrow> draft_id d' = i \<Longrightarrow>
     session_get (commit_row s d') i = Inr (Some d')"
  unfolding session_get_def commit_row_def by (induction s) (auto split: if_splits)

lemma session_get_commit_other:
  "draft_id d' \<noteq> i \<Longrightarrow> session_get (commit_row s d') i = session_get s i"
  unfolding session_get_def commit_row_def by (induction s) (auto split: if_splits)

lemma session_get_append:
  "session_get s i = Inr (Some d) \<Longrightarrow> session_get (s @ [d']) i = Inr (Some d)"
  unfolding session_get_def by (induction s) (auto split: if_splits)

lemma session_get_filter_other:
  "k \<noteq> i \<Longrightarrow> session_get (filter (\<lambda>r. draft_id r \<noteq> k) s) i = session_get s i"
  unfolding session_get_def by (induction s) (auto split: if_splits)

lemma session_get_filter_same:
  "sqlite_integer i \<Longrightarrow> session_get (filter (\<lambda>r. draft_id r \<noteq> i) s) i = Inr None"
  unfolding session_get_def by (induction s) (auto split: if_splits)

lemma session_get_cases:
  obtains e where "session_get s j = Inl e"
  | "session_get s j = Inr None"
  | dj where "session_get s j = Inr (Some dj)"
proof (cases "session_get s j")
  case (Inl e)
  then show ?thesis by (rule that(1))
next
  case (Inr v)
  then show ?thesis by (cases v) (auto intro: that(2) that(3))
qed

lemma step_send:
  assumes "session_get s i = Inr (Some d)"
  shows "session_get (step cfg s (w, Send i)) i =
     Inr (Some (if send_email cfg (w_smtp_ok w) (recipient d) (send_subject d) (content d)
           then d\<lparr>status := ''sent'', sent_at := Some (w_now w)\<rparr>
           else d\<lparr>status := ''failed''\<rparr>))"
  using assms session_get_id [OF assms]
  by (auto simp: send_def send_body_def Let_def session_get_commit_same)

lemma step_other:
  assumes "session_get s i = Inr (Some d)" "r \<noteq> Send i"
  shows "case session_get (step cfg s (w, r)) i of
           Inl e \<Rightarrow> False
         | Inr None \<Rightarrow> r = DeleteEmail i
         | Inr (Some d') \<Rightarrow> status d' = status d \<and> sent_at d' = sent_at d"
proof (cases r)
  case (Generate rq)
  then show ?thesis using assms by (simp add: generate_def Let_def session_get_append)
next
  case (Send j)
  with assms have ji: "j \<noteq> i" by simp
  show ?thesis
  proof (cases rule: session_get_cases [of s j])
    case (1 e)
    then show ?thesis using Send assms by (simp add: send_def send_body_def split: exn.splits)
  next
    case 2
    then show ?thesis using Send assms by (simp add: send_def send_body_def)
  next
    case (3 dj)
    then have "draft_id dj \<noteq> i" using session_get_id [OF 3] ji by simp
    then show ?thesis using Send 3 assms
      by (simp add: send_def send_body_def Let_def session_get_commit_other)
  qed
next
  case GetEmails
  then show ?thesis using assms by simp
next
  case GetStats
  then show ?thesis using assms by simp
next
  case (DeleteEmail j)
  show ?thesis
  proof (cases rule: session_get_cases [of s j])
    case (1 e)
    then show ?thesis using DeleteEmail assms by (simp add: delete_email_def delete_email_body_def)
  next
    case 2
    then show ?thesis using DeleteEmail assms by (simp add: delete_email_def delete_email_body_def)
  next
    case (3 dj)
    then have dj: "draft_id dj = j" by (rule session_get_id)
    show ?thesis
    proof (cases "j = i")
      case True
      then show ?thesis using DeleteEmail 3 dj session_get_range [OF assms(1)]
        by (simp add: delete_email_def delete_email_body_def session_get_filter_same)
    next
      case False
      then show ?thesis using DeleteEmail 3 dj assms
        by (simp add: delete_email_def delete_email_body_def session_get_filter_other)
    qed
  qed
next
  case (UpdateDraft j c)
  show ?thesis
  proof (cases rule: session_get_cases [of s j])
    case (1 e)
    then show ?thesis using UpdateDraft assms by (simp add: update_draft_def update_draft_body_def)
  next
    case 2
    then show ?thesis using UpdateDraft assms by (simp add: update_draft_def update_draft_body_def)
  next
    case (3 dj)
    then have dj: "draft_id dj = j" by (rule session_get_id)
    show ?thesis
    proof (cases "j = i")
      case True
      then show ?thesis using UpdateDraft 3 dj assms
        by (simp add: update_draft_def update_draft_body_def session_get_commit_same)
    next
      case False
      then show ?thesis using UpdateDraft 3 dj assms
        by (simp add: update_draft_def update_draft_body_def session_get_commit_other)
    qed
  qed
qed

lemma generate_new_row:
  "\<exists>d. generate cfg resp now rq s = (Inr d, s @ [d]) \<and> status d = ''draft'' \<and> sent_at d = None"
  by (simp add: generate_def Let_def)

text \<open>
  C1, as the code has it.  A new draft starts with status \<open>draft\<close> and no \<open>sent_at\<close>.  A send
  of draft \<open>i\<close> sets its status from what the dispatcher reports: \<open>sent\<close> with \<open>sent_at\<close> set
  to the clock on success, \<open>failed\<close> with \<open>sent_at\<close> left as it was on failure.  No other
  request changes the status or \<open>sent_at\<close> of a stored draft (a delete of \<open>i\<close> removes it).
  The send handler does not look at the present status, so a further send sets it again.
\<close>

theorem status_lifecycle:
  "(\<exists>new. generate cfg resp now rq s = (Inr new, s @ [new])
          \<and> status new = ''draft'' \<and> sent_at new = None)
   \<and> (session_get s i = Inr (Some d) \<longrightarrow>
        session_get (step cfg s (w, Send i)) i =
          Inr (Some (if send_email cfg (w_smtp_ok w) (recipient d) (send_subject d) (content d)
                then d\<lparr>status := ''sent'', sent_at := Some (w_now w)\<rparr>
                else d\<lparr>status := ''failed''\<rparr>)))
   \<and> (session_get s i = Inr (Some d) \<and> r \<noteq> Send i \<longrightarrow>
        (case session_get (step cfg s (w, r)) i of
           Inl e \<Rightarrow> False
         | Inr None \<Rightarrow> r = DeleteEmail i
         | Inr (Some d') \<Rightarrow> status d' = status d \<and> sent_at d' = sent_at d))"
  using generate_new_row [of cfg resp now rq s] step_send [of s i d cfg w]
    step_other [of s i d r cfg w]
  by blast

theorem status_lifecycle_witness:
  "session_get [example_draft] 1 = Inr (Some example_draft)
   \<and> UpdateDraft 1 ''new text'' \<noteq> Send 1
   \<and> map status (step smtp_settings [example_draft] (world_ok, Send 1)) = [''sent'']
   \<and> map sent_at (step smtp_settings [example_draft] (world_ok, Send 1)) = [Some t_2024_01_15]
   \<and> map status (step smtp_settings [example_draft] (world_down, Send 1)) = [''failed'']
   \<and> map status (step smtp_settings [example_draft] (world_ok, UpdateDraft 1 ''new text'')) = [''draft'']"
  using status_lifecycle [of smtp_settings ApiException t_2024_01_15 example_request
      "[example_draft]" 1 example_draft world_ok "UpdateDraft 1 ''new text''"]
  by (simp add: example_draft_def session_get_def sqlite_integer_def send_def send_body_def
      send_email_def smtp_configured_def smtp_settings_def unconfigured_def truthy_def world_ok_def world_down_def
      commit_row_def update_draft_def update_draft_body_def Let_def)

text \<open>
  The claim as stated fails: a draft is created, sent with success (status \<open>sent\<close>), and
  sent again while the dispatcher fails.  Its status is then \<open>failed\<close>, and \<open>sent_at\<close>
  still holds the time of the first send.
\<close>

theorem sent_status_not_final:
  "map status (run smtp_settings []
      [(world_ok, Generate example_request), (world_ok, Send 1)]) = [''sent'']
   \<and> map status (run smtp_settings []
      [(world_ok, Generate example_request), (world_ok, Send 1), (world_down, Send 1)]) = [''failed'']
   \<and> map sent_at (run smtp_settings []
      [(world_ok, Generate example_request), (world_ok, Send 1), (world_down, Send 1)])
       = [Some t_2024_01_15]"
  by (simp add: run_def generate_def Let_def next_id_def send_def send_body_def session_get_def
      sqlite_integer_def send_email_def smtp_configured_def smtp_settings_def unconfigured_def truthy_def world_ok_def
      world_down_def commit_row_def)


section \<open>Date arithmetic\<close>

lemma div_Suc_step: "Suc z div k = z div k + (if Suc z mod k = 0 then 1 else 0)"
  by (simp add: div_Suc)

lemma days_before_year_Suc:
  "days_before_year (Suc (Suc z)) = days_before_year (Suc z) + (if is_leap (Suc z) then 366 else 365)"
proof -
  define a where "a \<longleftrightarrow> Suc z mod 4 = 0"
  define b where "b \<longleftrightarrow> Suc z mod 100 = 0"
  define c where "c \<longleftrightarrow> Suc z mod 400 = 0"
  define q4 where "q4 = z div 4"
  define q100 where "q100 = z div 100"
  define q400 where "q400 = z div 400"
  have d: "q100 \<le> q4" unfolding q4_def q100_def by (rule div_le_mono2) simp_all
  have e: "b \<longrightarrow> a"
    unfolding a_def b_def using dvd_trans [of 4 100 "Suc z"] by (simp add: mod_eq_0_iff_dvd)
  have f: "c \<longrightarrow> b"
    unfolding b_def c_def using dvd_trans [of 100 400 "Suc z"] by (simp add: mod_eq_0_iff_dvd)
  have p4: "Suc z div 4 = q4 + (if a then 1 else 0)"
    unfolding a_def q4_def by (rule div_Suc_step)
  have p100: "Suc z div 100 = q100 + (if b then 1 else 0)"
    unfolding b_def q100_def by (rule div_Suc_step)
  have p400: "Suc z div 400 = q400 + (if c then 1 else 0)"
    unfolding c_def q400_def by (rule div_Suc_step)
  have leap: "is_leap (Suc z) \<longleftrightarrow> a \<and> (\<not> b \<or> c)"
    by (simp add: is_leap_def a_def b_def c_def)
  have main: "Suc z * 365 + Suc z div 4 - Suc z div 100 + Suc z div 400 =
      z * 365 + q4 - q100 + q400 + (if a \<and> (\<not> b \<or> c) then 366 else 365)"
    unfolding p4 p100 p400 using d e f by (cases a; cases b; cases c; simp)
  have "days_before_year (Suc (Suc z)) = Suc z * 365 + Suc z div 4 - Suc z div 100 + Suc z div 400"
    by (simp add: days_before_year_def)
  moreover have "days_before_year (Suc z) = z * 365 + q4 - q100 + q400"
    by (simp add: days_before_year_def q4_def q100_def q400_def)
  ultimately show ?thesis using main leap by simp
qed

lemma days_in_month_bounds: "28 \<le> days_in_month y m \<and> days_in_month y m \<le> 31"
  by (simp add: days_in_month_def)

lemma days_before_month_Suc:
  "1 \<le> m \<Longrightarrow> days_before_month y (Suc m) = days_before_month y m + days_in_month y m"
  by (simp add: days_before_month_def)

lemma days_before_month_1: "days_before_month y (Suc 0) = 0"
  by (simp add: days_before_month_def)

lemma upt_1_12: "[Suc 0..<12] = [1, 2, 3, 4, 5, 6, 7, 8, 9, 10, 11 :: nat]"
  by code_simp

lemma days_before_month_12:
  "days_before_month y 12 + 31 = (if is_leap y then 366 else 365)"
  by (simp add: days_before_month_def days_in_month_def upt_1_12)

lemma days_before_month_le: "m \<le> 12 \<Longrightarrow> days_before_month y m \<le> 341"
proof -
  have "days_before_month y m \<le> 31 * (m - 1)" for m
  proof (induction m)
    case 0
    then show ?case by (simp add: days_before_month_def)
  next
    case (Suc m)
    show ?case
    proof (cases m)
      case 0
      then show ?thesis by (simp add: days_before_month_def)
    next
      case (Suc k)
      then show ?thesis
        using Suc.IH days_in_month_bounds [of y m] by (simp add: days_before_month_Suc)
    qed
  qed
  from this [of m] show "m \<le> 12 \<Longrightarrow> days_before_month y m \<le> 341" by simp
qed

lemma days_before_year_low: "days_before_year y = 0" if "y \<le> 1"
  using that by (simp add: days_before_year_def)

lemma days_before_year_ge: "1 < y \<Longrightarrow> 365 \<le> days_before_year y"
proof -
  assume "1 < y"
  then obtain z where "y = Suc (Suc z)" by (auto dest: less_imp_Suc_add)
  then show ?thesis using days_before_year_Suc [of z] by simp
qed

lemma prev_day_ordinal:
  assumes v: "valid_date t" and o: "1 < toordinal t"
  shows "valid_date (prev_day t) \<and> toordinal (prev_day t) + 1 = toordinal t"
proof -
  have "1 \<le> day t" "1 \<le> month t" using v by (simp_all add: valid_date_def)
  then have "1 < day t \<or> (day t = 1 \<and> 1 < month t) \<or> (day t = 1 \<and> month t = 1)" by arith
  then consider (a) "1 < day t" | (b) "day t = 1" "1 < month t" | (c) "day t = 1" "month t = 1"
    by blast
  then show ?thesis
  proof cases
    case a
    then show ?thesis using v by (auto simp: prev_day_def valid_date_def toordinal_def)
  next
    case b
    then obtain m where m: "month t = Suc m" "1 \<le> m" by (cases "month t") auto
    show ?thesis using b v m days_in_month_bounds [of "year t" m]
      by (simp add: prev_day_def valid_date_def toordinal_def days_before_month_Suc)
  next
    case c
    have "0 < days_before_year (year t)"
      using o c by (simp add: toordinal_def days_before_month_1)
    then have "1 < year t" using days_before_year_low [of "year t"] by (cases "year t \<le> 1") auto
    then obtain z where z: "year t = Suc (Suc z)" by (auto dest: less_imp_Suc_add)
    have "days_in_month (Suc z) 12 = 31" by (simp add: days_in_month_def)
    then show ?thesis using c z days_before_year_Suc [of z] days_before_month_12 [of "Suc z"]
      by (simp add: prev_day_def valid_date_def toordinal_def days_before_month_1)
  qed
qed

lemma next_day_ordinal:
  assumes v: "valid_date t"
  shows "valid_date (next_day t) \<and> toordinal (next_day t) = toordinal t + 1"
proof -
  consider (a) "day t < days_in_month (year t) (month t)"
    | (b) "day t = days_in_month (year t) (month t)" "month t < 12"
    | (c) "day t = days_in_month (year t) (month t)" "month t = 12"
  proof -
    have "day t \<le> days_in_month (year t) (month t)" "month t \<le> 12"
      using v by (simp_all add: valid_date_def)
    then have "day t < days_in_month (year t) (month t)
        \<or> (day t = days_in_month (year t) (month t) \<and> month t < 12)
        \<or> (day t = days_in_month (year t) (month t) \<and> month t = 12)" by arith
    then show ?thesis using that by blast
  qed
  then show ?thesis
  proof cases
    case a
    then show ?thesis using v by (simp add: next_day_def valid_date_def toordinal_def)
  next
    case b
    then show ?thesis using v days_in_month_bounds [of "year t" "Suc (month t)"]
      by (simp add: next_day_def valid_date_def toordinal_def days_before_month_Suc)
  next
    case c
    obtain z where z: "year t = Suc z" using v by (cases "year t") (auto simp: valid_date_def)
    have d: "days_in_month (Suc z) 12 = 31" by (simp add: days_in_month_def)
    have e: "days_in_month (Suc (Suc z)) (Suc 0) = 31" by (simp add: days_in_month_def)
    show ?thesis using c z d e days_before_year_Suc [of z] days_before_month_12 [of "Suc z"]
      by (simp add: next_day_def valid_date_def toordinal_def days_before_month_1)
  qed
qed

lemma prev_days_ordinal:
  "valid_date t \<Longrightarrow> n < toordinal t \<Longrightarrow>
     valid_date ((prev_day ^^ n) t) \<and> toordinal ((prev_day ^^ n) t) + n = toordinal t"
proof (induction n)
  case 0
  then show ?case by simp
next
  case (Suc n)
  then have ih: "valid_date ((prev_day ^^ n) t)" "toordinal ((prev_day ^^ n) t) + n = toordinal t"
    by simp_all
  then have "1 < toordinal ((prev_day ^^ n) t)" using Suc.prems by simp
  from prev_day_ordinal [OF ih(1) this] ih(2) show ?case by simp
qed

lemma next_days_ordinal:
  "valid_date t \<Longrightarrow>
     valid_date ((next_day ^^ n) t) \<and> toordinal ((next_day ^^ n) t) = toordinal t + n"
proof (induction n)
  case 0
  then show ?case by simp
next
  case (Suc n)
  then have ih: "valid_date ((next_day ^^ n) t)" "toordinal ((next_day ^^ n) t) = toordinal t + n"
    by simp_all
  from next_day_ordinal [OF ih(1)] ih(2) show ?case by simp
qed

lemma valid_replace_day1: "valid_date t \<Longrightarrow> valid_date (replace_day1 t)"
  using days_in_month_bounds [of "year t" "month t"]
  by (simp add: valid_date_def replace_day1_def)

lemma toordinal_replace_day1: "toordinal (replace_day1 t) + day t = toordinal t + 1"
  by (simp add: toordinal_def replace_day1_def)

lemma days_before_year_le:
  assumes "y < 9999"
  shows "days_before_year y \<le> 3651428"
proof -
  define z where "z = y - 1"
  have z: "z \<le> 9997" using assms by (simp add: z_def)
  have a: "z * 365 \<le> 9997 * 365" using z by (rule mult_le_mono1)
  have b: "z div 4 \<le> 9997 div 4" using z by (rule div_le_mono)
  have c: "z div 400 \<le> 9997 div 400" using z by (rule div_le_mono)
  have "days_before_year y \<le> z * 365 + z div 4 + z div 400"
    by (simp add: days_before_year_def z_def)
  then show ?thesis using a b c by simp
qed

lemma toordinal_le:
  assumes "valid_date t" "year t < 9999"
  shows "toordinal t \<le> 3651800"
proof -
  have "days_before_month (year t) (month t) \<le> 341"
    using assms by (intro days_before_month_le) (simp add: valid_date_def)
  moreover have "day t \<le> 31"
    using assms days_in_month_bounds [of "year t" "month t"] by (simp add: valid_date_def)
  ultimately show ?thesis using days_before_year_le [OF assms(2)] by (simp add: toordinal_def)
qed

lemma toordinal_ge:
  assumes "valid_date t" "1 < year t"
  shows "366 \<le> toordinal t"
  using assms days_before_year_ge [of "year t"] by (simp add: toordinal_def valid_date_def)

lemma valid_day_le: "valid_date t \<Longrightarrow> day t \<le> 31 \<and> 1 \<le> day t"
  using days_in_month_bounds [of "year t" "month t"] by (simp add: valid_date_def)

lemma month_window_ok:
  assumes v: "valid_date now" and y1: "1 < year now" and y2: "year now < 9999" and i: "i < 6"
  shows "month_window now i = Inr (month_start_of now i, month_end_of now i)"
proof -
  define a where "a = replace_day1 now"
  define ms where "ms = (prev_day ^^ (30 * i)) a"
  define b where "b = replace_day1 ms"
  define t where "t = (next_day ^^ 32) b"
  define c where "c = replace_day1 t"
  have va: "valid_date a" unfolding a_def using v by (rule valid_replace_day1)
  have ya: "year a = year now" by (simp add: a_def replace_day1_def)
  have a_lo: "366 \<le> toordinal a" using va y1 ya by (intro toordinal_ge) simp_all
  have a_hi: "toordinal a \<le> 3651800" using va y2 ya by (intro toordinal_le) simp_all
  have n: "30 * i < toordinal a" using i a_lo by simp
  have ms: "valid_date ms \<and> toordinal ms + 30 * i = toordinal a"
    unfolding ms_def using va n by (rule prev_days_ordinal)
  have s1: "sub_days a (30 * i) = Inr ms" using n by (simp add: sub_days_def ms_def)
  have vb: "valid_date b" unfolding b_def using ms by (intro valid_replace_day1) simp
  have "toordinal b + day ms = toordinal ms + 1" unfolding b_def by (rule toordinal_replace_day1)
  then have b_hi: "toordinal b \<le> 3651800" using ms a_hi valid_day_le [of ms] by simp
  have s2: "add_days b 32 = Inr t" using b_hi by (simp add: add_days_def t_def MAXORDINAL_def)
  have t: "valid_date t \<and> toordinal t = toordinal b + 32"
    unfolding t_def using vb by (rule next_days_ordinal)
  have "toordinal c + day t = toordinal t + 1" unfolding c_def by (rule toordinal_replace_day1)
  then have "1 < toordinal c" using t valid_day_le [of t] by simp
  then have s3: "sub_days c 1 = Inr (prev_day c)" by (simp add: sub_days_def)
  have "month_window now i = Inr (ms, prev_day c)"
    using s1 s2 s3 by (simp add: month_window_def a_def [symmetric] b_def [symmetric] c_def [symmetric])
  then show ?thesis
    by (simp add: month_start_of_def month_end_of_def ms_def a_def b_def t_def c_def)
qed

section \<open>The statistics handler returns\<close>

lemma monthly_loop_ok:
  "(\<forall>i \<in> set js. month_window (clock (Suc i)) i = Inr (W i)) \<Longrightarrow>
     monthly_loop clock drafts js acc = Inr (acc @ map (\<lambda>i. month_entry_of drafts (W i)) js)"
  by (induction js arbitrary: acc) simp_all

lemma clock_in_rangeD:
  "clock_in_range clock \<Longrightarrow> k < 7 \<Longrightarrow>
     valid_date (clock k) \<and> 1 < year (clock k) \<and> year (clock k) < 9999"
  by (simp add: clock_in_range_def list_all_iff)

lemma monthly_ok:
  assumes "clock_in_range clock"
  shows "monthly_loop clock drafts [0..<6] [] =
     Inr (map (\<lambda>i. month_entry_of drafts
            (month_start_of (clock (Suc i)) i, month_end_of (clock (Suc i)) i)) [0..<6])"
proof -
  have "\<forall>i \<in> set [0..<6]. month_window (clock (Suc i)) i =
      Inr (month_start_of (clock (Suc i)) i, month_end_of (clock (Suc i)) i)"
  proof
    fix i assume "i \<in> set [0..<6]"
    then have i: "i < 6" by simp
    then have "Suc i < 7" by simp
    from clock_in_rangeD [OF assms this] i show "month_window (clock (Suc i)) i =
      Inr (month_start_of (clock (Suc i)) i, month_end_of (clock (Suc i)) i)"
      by (intro month_window_ok) simp_all
  qed
  from monthly_loop_ok [OF this, of drafts "[]"] show ?thesis by simp
qed

lemma week_ago_ok:
  assumes "clock_in_range clock"
  shows "sub_days (clock 0) 7 = Inr ((prev_day ^^ 7) (clock 0))"
proof -
  have "valid_date (clock 0) \<and> 1 < year (clock 0) \<and> year (clock 0) < 9999"
    using assms by (intro clock_in_rangeD) simp_all
  then have "366 \<le> toordinal (clock 0)" by (intro toordinal_ge) simp_all
  then show ?thesis by (simp add: sub_days_def)
qed

lemma success_rate_ok:
  "success_rate_expr fl a (int n) =
     Inr (if n = 0 then PyInt 0 else PyFloat (mul_int fl (truediv fl a (int n)) 100))"
  by (simp add: success_rate_expr_def py_truediv_def)

lemma get_stats_ok:
  assumes "clock_in_range clock"
  shows "get_stats fl clock drafts =
    Inr \<lparr>total_sent = count1 (\<lambda>d. status d = ''sent'') drafts,
         total_drafts = count1 (\<lambda>d. status d = ''draft'') drafts,
         total_failed = count1 (\<lambda>d. status d = ''failed'') drafts,
         success_rate = py_round fl
           (if length drafts = 0 then PyInt 0
            else PyFloat (mul_int fl (truediv fl (count1 (\<lambda>d. status d = ''sent'') drafts)
                                       (int (length drafts))) 100)) 1,
         recent_activity =
           count1 (\<lambda>d. dt_le ((prev_day ^^ 7) (clock 0)) (ensure_aware (created_at d))) drafts,
         popular_tones = py_dict (most_common (Counter (map tone drafts))),
         monthly_stats = rev (map (\<lambda>i. month_entry_of drafts
            (month_start_of (clock (Suc i)) i, month_end_of (clock (Suc i)) i)) [0..<6])\<rparr>"
  unfolding get_stats_def get_stats_body_def Let_def
  by (simp only: success_rate_ok week_ago_ok [OF assms] monthly_ok [OF assms] sum.case)


section \<open>Counts and the success rate\<close>

lemma count1_length: "count1 P xs = int (length (filter P xs))"
  by (induction xs) (simp_all add: count1_def)

lemma three_way_count:
  assumes "\<forall>d \<in> set xs. P d \<or> Q d \<or> R d"
    and "\<forall>d \<in> set xs. \<not> (P d \<and> Q d) \<and> \<not> (P d \<and> R d) \<and> \<not> (Q d \<and> R d)"
  shows "length (filter P xs) + length (filter Q xs) + length (filter R xs) = length xs"
  using assms by (induction xs) auto

lemma clock_2024: "clock_in_range (\<lambda>k. t_2024_03_15)"
  by (simp add: clock_in_range_def list_all_iff valid_date_def t_2024_03_15_def days_in_month_def)

text \<open>
  C5.  When every draft has one of the three known statuses, the three counters of the
  report add up to the number of rows, \<open>total_emails\<close> (which the handler computes and
  does not put into the report).
\<close>

theorem status_counts_partition:
  assumes "clock_in_range clock"
    and "\<forall>d \<in> set drafts. status d = ''sent'' \<or> status d = ''draft'' \<or> status d = ''failed''"
  shows "\<exists>r. get_stats fl clock drafts = Inr r
           \<and> total_sent r + total_drafts r + total_failed r = int (length drafts)"
proof -
  have "length (filter (\<lambda>d. status d = ''sent'') drafts)
      + length (filter (\<lambda>d. status d = ''draft'') drafts)
      + length (filter (\<lambda>d. status d = ''failed'') drafts) = length drafts"
    using assms(2) by (intro three_way_count) auto
  then show ?thesis
    by (simp add: get_stats_ok [OF assms(1)] count1_length flip: of_nat_add)
qed

theorem status_counts_partition_witness:
  "clock_in_range (\<lambda>k. t_2024_03_15)
   \<and> status draft_january = ''sent''
   \<and> status example_draft = ''draft''
   \<and> (\<exists>r. get_stats pair_ops (\<lambda>k. t_2024_03_15) [draft_january, example_draft] = Inr r
           \<and> total_sent r + total_drafts r + total_failed r = 2)"
proof -
  have c: "clock_in_range (\<lambda>k. t_2024_03_15)" by (rule clock_2024)
  have s: "\<forall>d \<in> set [draft_january, example_draft].
         status d = ''sent'' \<or> status d = ''draft'' \<or> status d = ''failed''"
    by (simp add: draft_january_def example_draft_def)
  have j: "status draft_january = ''sent''" by (simp add: draft_january_def)
  have e: "status example_draft = ''draft''" by (simp add: example_draft_def)
  from status_counts_partition [OF c s, of pair_ops] c j e show ?thesis by simp
qed

lemma sub_days_error: "sub_days t n = Inl e \<Longrightarrow> e = OverflowError"
  by (auto simp: sub_days_def split: if_splits)

lemma add_days_error: "add_days t n = Inl e \<Longrightarrow> e = OverflowError"
  by (auto simp: add_days_def split: if_splits)

lemma month_window_error: "month_window now i = Inl e \<Longrightarrow> e = OverflowError"
  by (auto simp: month_window_def split: sum.splits dest: sub_days_error add_days_error)

lemma monthly_loop_error: "monthly_loop clock drafts js acc = Inl e \<Longrightarrow> e = OverflowError"
  by (induction js arbitrary: acc) (auto split: sum.splits dest: month_window_error)

lemma body_never_divides_by_zero: "get_stats_body fl clock drafts \<noteq> Inl ZeroDivisionError"
  by (auto simp: get_stats_body_def Let_def success_rate_ok
      split: sum.splits dest: sub_days_error monthly_loop_error)

text \<open>
  C4.  The report's \<open>success_rate\<close> is \<open>round(total_sent / total_emails * 100, 1)\<close> when
  there are drafts, and the integer 0 when there are none; the division is never reached
  with a zero divisor, so the handler never raises \<open>ZeroDivisionError\<close>, whatever the clock.
\<close>

theorem success_rate_defined:
  assumes "clock_in_range clock"
  shows "(\<exists>r. get_stats fl clock drafts = Inr r
            \<and> success_rate r =
                (if drafts = [] then PyInt 0
                 else PyFloat (round_nd fl
                        (mul_int fl (truediv fl (total_sent r) (int (length drafts))) 100) 1)))
         \<and> get_stats_body fl any_clock drafts \<noteq> Inl ZeroDivisionError"
  by (simp add: get_stats_ok [OF assms] py_round_def body_never_divides_by_zero)

theorem success_rate_defined_witness:
  "clock_in_range (\<lambda>k. t_2024_03_15)
   \<and> (\<exists>r. get_stats pair_ops (\<lambda>k. t_2024_03_15) [] = Inr r \<and> success_rate r = PyInt 0)
   \<and> (\<exists>r. get_stats pair_ops (\<lambda>k. t_2024_03_15) [draft_january, example_draft] = Inr r
          \<and> success_rate r = PyFloat (100, 2))"
proof -
  have c: "clock_in_range (\<lambda>k. t_2024_03_15)" by (rule clock_2024)
  from success_rate_defined [OF c, of pair_ops "[]"]
    success_rate_defined [OF c, of pair_ops "[draft_january, example_draft]"] c
  show ?thesis
    by (auto simp: pair_ops_def get_stats_ok [OF c] count1_def draft_january_def example_draft_def)
qed


section \<open>The six monthly entries\<close>

lemma funpow_numeral_step: "(f ^^ numeral k) x = (f ^^ pred_numeral k) (f x)"
  by (simp add: numeral_eq_Suc funpow_swap1)

lemma prev_day_eval:
  "prev_day \<lparr>year = y, month = m, day = d, tod = x\<rparr> =
     (if 1 < d then \<lparr>year = y, month = m, day = d - 1, tod = x\<rparr>
      else if 1 < m then \<lparr>year = y, month = m - 1, day = days_in_month y (m - 1), tod = x\<rparr>
      else \<lparr>year = y - 1, month = 12, day = 31, tod = x\<rparr>)"
  by (simp add: prev_day_def)

lemma next_day_eval:
  "next_day \<lparr>year = y, month = m, day = d, tod = x\<rparr> =
     (if d < days_in_month y m then \<lparr>year = y, month = m, day = d + 1, tod = x\<rparr>
      else if m < 12 then \<lparr>year = y, month = m + 1, day = 1, tod = x\<rparr>
      else \<lparr>year = y + 1, month = 1, day = 1, tod = x\<rparr>)"
  by (simp add: next_day_def)

lemmas date_eval =
  month_start_of_def month_end_of_def t_2024_03_15_def replace_day1_def
  funpow_numeral_step prev_day_eval next_day_eval days_in_month_def is_leap_def

lemma window_2024_0:
  "month_start_of t_2024_03_15 0 = \<lparr>year = 2024, month = 3, day = 1, tod = 36000000000\<rparr>"
  "month_end_of t_2024_03_15 0 = \<lparr>year = 2024, month = 3, day = 31, tod = 36000000000\<rparr>"
  by (simp_all add: date_eval)

lemma window_2024_1:
  "month_start_of t_2024_03_15 (Suc 0) = \<lparr>year = 2024, month = 1, day = 31, tod = 36000000000\<rparr>"
  "month_end_of t_2024_03_15 (Suc 0) = \<lparr>year = 2024, month = 1, day = 31, tod = 36000000000\<rparr>"
  by (simp_all add: date_eval)

lemma window_2024_2:
  "month_start_of t_2024_03_15 2 = \<lparr>year = 2024, month = 1, day = 1, tod = 36000000000\<rparr>"
  "month_end_of t_2024_03_15 2 = \<lparr>year = 2024, month = 1, day = 31, tod = 36000000000\<rparr>"
  by (simp_all add: date_eval)

lemma window_2024_3:
  "month_start_of t_2024_03_15 3 = \<lparr>year = 2023, month = 12, day = 2, tod = 36000000000\<rparr>"
  "month_end_of t_2024_03_15 3 = \<lparr>year = 2023, month = 12, day = 31, tod = 36000000000\<rparr>"
  by (simp_all add: date_eval)

lemma window_2024_4:
  "month_start_of t_2024_03_15 4 = \<lparr>year = 2023, month = 11, day = 2, tod = 36000000000\<rparr>"
  "month_end_of t_2024_03_15 4 = \<lparr>year = 2023, month = 11, day = 30, tod = 36000000000\<rparr>"
  by (simp_all add: date_eval)

lemma window_2024_5:
  "month_start_of t_2024_03_15 5 = \<lparr>year = 2023, month = 10, day = 3, tod = 36000000000\<rparr>"
  "month_end_of t_2024_03_15 5 = \<lparr>year = 2023, month = 10, day = 31, tod = 36000000000\<rparr>"
  by (simp_all add: date_eval)

lemmas windows_2024 =
  window_2024_0 window_2024_1 window_2024_2 window_2024_3 window_2024_4 window_2024_5

lemma upt_0_6: "[0..<6] = [0, 1, 2, 3, 4, 5 :: nat]"
  by code_simp

lemma month_abbr_eval:
  "month_abbr 1 = ''Jan''" "month_abbr 3 = ''Mar''" "month_abbr 10 = ''Oct''"
  "month_abbr 11 = ''Nov''" "month_abbr 12 = ''Dec''" "month_abbr 2 = ''Feb''"
  "month_abbr (Suc 0) = ''Jan''"
  by (simp_all add: month_abbr_def)

text \<open>
  C3.  The claim is that the window of each monthly entry is a whole calendar month.
  The handler re-anchors to day 1 only inside the computation of \<open>month_end\<close>; the filter
  uses \<open>month_start\<close> as it comes out of the subtraction of \<open>30*i\<close> days, and both bounds
  keep the time of day of the clock.  Evaluated at 2024-03-15 10:00 with one draft created
  on 2024-01-15 and one on 2024-03-01 at 00:00, both sent: the window of \<open>i = 0\<close> runs from
  March 1 at 10:00 to March 31 at 10:00, the window of \<open>i = 1\<close> is the single instant
  January 31 at 10:00, and neither the March entry nor the second January entry counts
  the draft of its month.
\<close>

theorem monthly_windows_at_2024_03_15:
  "month_window t_2024_03_15 0 =
     Inr (\<lparr>year = 2024, month = 3, day = 1, tod = 36000000000\<rparr>,
          \<lparr>year = 2024, month = 3, day = 31, tod = 36000000000\<rparr>)
   \<and> month_window t_2024_03_15 1 =
     Inr (\<lparr>year = 2024, month = 1, day = 31, tod = 36000000000\<rparr>,
          \<lparr>year = 2024, month = 1, day = 31, tod = 36000000000\<rparr>)
   \<and> (case get_stats pair_ops (\<lambda>k. t_2024_03_15) [draft_january, draft_march] of
         Inl e \<Rightarrow> []
       | Inr r \<Rightarrow> map (\<lambda>e. (m_month e, m_sent e)) (monthly_stats r)) =
       [(''Oct'', 0), (''Nov'', 0), (''Dec'', 0), (''Jan'', 1), (''Jan'', 0), (''Mar'', 0)]"
proof -
  have v: "valid_date t_2024_03_15" "1 < year t_2024_03_15" "year t_2024_03_15 < 9999"
    by (simp_all add: valid_date_def t_2024_03_15_def days_in_month_def)
  have a: "month_window t_2024_03_15 0 = Inr (month_start_of t_2024_03_15 0, month_end_of t_2024_03_15 0)"
    using v by (intro month_window_ok) simp_all
  have b: "month_window t_2024_03_15 1 = Inr (month_start_of t_2024_03_15 1, month_end_of t_2024_03_15 1)"
    using v by (intro month_window_ok) simp_all
  have c: "(case get_stats pair_ops (\<lambda>k. t_2024_03_15) [draft_january, draft_march] of
         Inl e \<Rightarrow> []
       | Inr r \<Rightarrow> map (\<lambda>e. (m_month e, m_sent e)) (monthly_stats r)) =
       [(''Oct'', 0), (''Nov'', 0), (''Dec'', 0), (''Jan'', 1), (''Jan'', 0), (''Mar'', 0)]"
    by (simp add: get_stats_ok [OF clock_2024] upt_0_6 windows_2024 month_entry_of_def Let_def
        month_abbr_eval dt_le_def ensure_aware_def count1_def draft_january_def draft_march_def
        example_draft_def t_2024_01_15_def t_2024_03_01_def)
  show ?thesis using a b c by (simp add: windows_2024)
qed

lemma m_month_entry: "m_month (month_entry_of drafts w) = month_abbr (month (fst w))"
  by (simp add: month_entry_of_def Let_def)

lemma month_start_ordinal:
  assumes "clock_in_range clock" "i < 6"
  shows "valid_date (month_start_of (clock (Suc i)) i)
     \<and> toordinal (month_start_of (clock (Suc i)) i) + 30 * i
         = toordinal (replace_day1 (clock (Suc i)))"
proof -
  have v: "valid_date (clock (Suc i)) \<and> 1 < year (clock (Suc i)) \<and> year (clock (Suc i)) < 9999"
    using clock_in_rangeD [OF assms(1), of "Suc i"] assms(2) by simp
  then have va: "valid_date (replace_day1 (clock (Suc i)))" by (intro valid_replace_day1) simp
  have "366 \<le> toordinal (replace_day1 (clock (Suc i)))"
    using va v by (intro toordinal_ge) (simp_all add: replace_day1_def)
  then have "30 * i < toordinal (replace_day1 (clock (Suc i)))" using assms(2) by simp
  from prev_days_ordinal [OF va this] show ?thesis by (simp add: month_start_of_def)
qed

lemma first_of_month_ordinal:
  "year a = year b \<Longrightarrow> month a = month b \<Longrightarrow>
     toordinal (replace_day1 a) = toordinal (replace_day1 b)"
  by (simp add: toordinal_def replace_day1_def)

lemma six_labels:
  assumes "clock_in_range clock"
  shows "\<exists>r. get_stats fl clock drafts = Inr r
          \<and> length (monthly_stats r) = 6
          \<and> map m_month (monthly_stats r) =
              map (\<lambda>i. month_abbr (month (month_start_of (clock (Suc i)) i))) [5, 4, 3, 2, 1, 0]"
  by (simp add: get_stats_ok [OF assms] upt_0_6 m_month_entry)

lemma six_ordinals:
  assumes "clock_in_range clock"
  shows "\<forall>i<6. valid_date (month_start_of (clock (Suc i)) i)
             \<and> toordinal (month_start_of (clock (Suc i)) i) + 30 * i
                 = toordinal (replace_day1 (clock (Suc i)))"
  using month_start_ordinal [OF assms] by blast

lemma six_last: "month (month_start_of (clock 1) 0) = month (clock 1)"
  by (simp add: month_start_of_def replace_day1_def)

lemma six_order:
  assumes "clock_in_range clock"
    and same: "\<forall>i<6. year (clock (Suc i)) = year (clock 1) \<and> month (clock (Suc i)) = month (clock 1)"
    and ij: "i < j" "j < 6"
  shows "toordinal (month_start_of (clock (Suc j)) j) < toordinal (month_start_of (clock (Suc i)) i)"
proof -
  define f where "f = toordinal (replace_day1 (clock 1))"
  define a where "a = toordinal (month_start_of (clock (Suc i)) i)"
  define b where "b = toordinal (month_start_of (clock (Suc j)) j)"
  have i6: "i < 6" using ij by simp
  have yi: "year (clock (Suc i)) = year (clock 1)" and mi: "month (clock (Suc i)) = month (clock 1)"
    using same i6 by blast+
  have yj: "year (clock (Suc j)) = year (clock 1)" and mj: "month (clock (Suc j)) = month (clock 1)"
    using same ij(2) by blast+
  have ei: "toordinal (replace_day1 (clock (Suc i))) = f"
    unfolding f_def using yi mi by (rule first_of_month_ordinal)
  have ej: "toordinal (replace_day1 (clock (Suc j))) = f"
    unfolding f_def using yj mj by (rule first_of_month_ordinal)
  have pa: "a + 30 * i = f"
    using month_start_ordinal [OF assms(1) i6] unfolding a_def ei by (rule conjunct2)
  have pb: "b + 30 * j = f"
    using month_start_ordinal [OF assms(1) ij(2)] unfolding b_def ej by (rule conjunct2)
  from pa pb ij(1) have "b < a" by arith
  then show ?thesis unfolding a_def b_def .
qed

lemma clock_month_turn: "clock_in_range month_turn_clock"
proof -
  have a: "valid_date t_2024_03_31 \<and> 1 < year t_2024_03_31 \<and> year t_2024_03_31 < 9999"
    by (simp add: valid_date_def t_2024_03_31_def days_in_month_def)
  have b: "valid_date t_2024_04_01 \<and> 1 < year t_2024_04_01 \<and> year t_2024_04_01 < 9999"
    by (simp add: valid_date_def t_2024_04_01_def days_in_month_def)
  have "valid_date (month_turn_clock k) \<and> 1 < year (month_turn_clock k)
      \<and> year (month_turn_clock k) < 9999" for k
    using a b unfolding month_turn_clock_def by (cases "k \<le> 1") simp_all
  then show ?thesis unfolding clock_in_range_def list_all_iff by blast
qed

lemma month_turn_readings:
  "month_turn_clock (Suc 0) = t_2024_03_31" "month_turn_clock 1 = t_2024_03_31"
  "month_turn_clock (Suc (Suc 0)) = t_2024_04_01" "month_turn_clock 2 = t_2024_04_01"
  "month_turn_clock 3 = t_2024_04_01" "month_turn_clock 4 = t_2024_04_01"
  "month_turn_clock 5 = t_2024_04_01" "month_turn_clock 6 = t_2024_04_01"
  by (simp_all add: month_turn_clock_def)

lemmas turn_eval =
  month_start_of_def t_2024_03_31_def t_2024_04_01_def replace_day1_def
  funpow_numeral_step prev_day_eval days_in_month_def is_leap_def

lemma month_turn_starts:
  "month_start_of t_2024_03_31 0 = \<lparr>year = 2024, month = 3, day = 1, tod = 86399999999\<rparr>"
  "month_start_of t_2024_04_01 (Suc 0) = \<lparr>year = 2024, month = 3, day = 2, tod = 0\<rparr>"
  "month_start_of t_2024_04_01 2 = \<lparr>year = 2024, month = 2, day = 1, tod = 0\<rparr>"
  "month_start_of t_2024_04_01 3 = \<lparr>year = 2024, month = 1, day = 2, tod = 0\<rparr>"
  "month_start_of t_2024_04_01 4 = \<lparr>year = 2023, month = 12, day = 3, tod = 0\<rparr>"
  "month_start_of t_2024_04_01 5 = \<lparr>year = 2023, month = 11, day = 3, tod = 0\<rparr>"
  by (simp_all add: turn_eval)

text \<open>
  C6, as the code has it.  The handler reads the clock anew in each of the six loop
  iterations.  The report has exactly six monthly entries, in the reverse of the order in
  which they are computed: the entry at position \<open>5 - i\<close> is labelled with the month of the
  day that lies \<open>30 * i\<close> days before the first day of the month of the reading of
  iteration \<open>i\<close>, and the last entry is labelled with the month of the first of these
  readings.  When the six readings fall in one calendar month, the entries are ordered
  oldest first: the day of each entry lies before the day of the next.
\<close>

theorem monthly_stats_six_entries:
  assumes "clock_in_range clock"
  shows "(\<exists>r. get_stats fl clock drafts = Inr r
          \<and> length (monthly_stats r) = 6
          \<and> map m_month (monthly_stats r) =
              map (\<lambda>i. month_abbr (month (month_start_of (clock (Suc i)) i))) [5, 4, 3, 2, 1, 0])
      \<and> month (month_start_of (clock 1) 0) = month (clock 1)
      \<and> (\<forall>i<6. valid_date (month_start_of (clock (Suc i)) i)
             \<and> toordinal (month_start_of (clock (Suc i)) i) + 30 * i
                 = toordinal (replace_day1 (clock (Suc i))))
      \<and> ((\<forall>i<6. year (clock (Suc i)) = year (clock 1) \<and> month (clock (Suc i)) = month (clock 1))
           \<longrightarrow> (\<forall>i j. i < j \<and> j < 6 \<longrightarrow>
                  toordinal (month_start_of (clock (Suc j)) j)
                    < toordinal (month_start_of (clock (Suc i)) i)))"
proof -
  note a = six_labels [OF assms, of fl drafts]
  note b = six_last [of clock]
  note c = six_ordinals [OF assms]
  have d: "(\<forall>i<6. year (clock (Suc i)) = year (clock 1) \<and> month (clock (Suc i)) = month (clock 1))
           \<longrightarrow> (\<forall>i j. i < j \<and> j < 6 \<longrightarrow>
                  toordinal (month_start_of (clock (Suc j)) j)
                    < toordinal (month_start_of (clock (Suc i)) i))"
  proof (intro impI allI)
    fix i j :: nat
    assume same: "\<forall>i<6. year (clock (Suc i)) = year (clock 1) \<and> month (clock (Suc i)) = month (clock 1)"
    assume ij: "i < j \<and> j < 6"
    then have "i < j" and "j < 6" by simp_all
    with assms same show "toordinal (month_start_of (clock (Suc j)) j)
            < toordinal (month_start_of (clock (Suc i)) i)" by (rule six_order)
  qed
  show ?thesis by (rule conjI [OF a conjI [OF b conjI [OF c d]]])
qed

theorem monthly_stats_six_entries_witness:
  "clock_in_range month_turn_clock
   \<and> (\<exists>r. get_stats pair_ops month_turn_clock [] = Inr r
          \<and> length (monthly_stats r) = 6
          \<and> map m_month (monthly_stats r) = [''Nov'', ''Dec'', ''Jan'', ''Feb'', ''Mar'', ''Mar''])
   \<and> (1 :: nat) < 6
   \<and> toordinal (month_start_of (month_turn_clock (Suc 1)) 1) + 30 * 1
       = toordinal (replace_day1 (month_turn_clock (Suc 1)))
   \<and> month_turn_clock (Suc 1) = t_2024_04_01
   \<and> month_start_of t_2024_04_01 (Suc 0) = \<lparr>year = 2024, month = 3, day = 2, tod = 0\<rparr>
   \<and> month_turn_clock (Suc 0) = t_2024_03_31
   \<and> month_start_of t_2024_03_31 0 = \<lparr>year = 2024, month = 3, day = 1, tod = 86399999999\<rparr>
   \<and> clock_in_range (\<lambda>k. t_2024_03_15)
   \<and> toordinal (month_start_of t_2024_03_15 1) < toordinal (month_start_of t_2024_03_15 0)"
proof -
  have c: "clock_in_range month_turn_clock" by (rule clock_month_turn)
  note th = monthly_stats_six_entries [OF c, of pair_ops "[]"]
  from th [THEN conjunct1] obtain r where r: "get_stats pair_ops month_turn_clock [] = Inr r"
    and l: "length (monthly_stats r) = 6"
    and m: "map m_month (monthly_stats r) =
      map (\<lambda>i. month_abbr (month (month_start_of (month_turn_clock (Suc i)) i))) [5, 4, 3, 2, 1, 0]"
    by (elim exE conjE)
  have m': "map m_month (monthly_stats r) = [''Nov'', ''Dec'', ''Jan'', ''Feb'', ''Mar'', ''Mar'']"
    unfolding m by (simp add: month_turn_readings month_turn_starts month_abbr_def)
  have e: "\<exists>r. get_stats pair_ops month_turn_clock [] = Inr r
          \<and> length (monthly_stats r) = 6
          \<and> map m_month (monthly_stats r) = [''Nov'', ''Dec'', ''Jan'', ''Feb'', ''Mar'', ''Mar'']"
    by (rule exI [of _ r]) (rule conjI [OF r conjI [OF l m']])
  note o = th [THEN conjunct2, THEN conjunct2, THEN conjunct1]
  have one: "(1 :: nat) < 6" by simp
  have o1: "toordinal (month_start_of (month_turn_clock (Suc 1)) 1) + 30 * 1
                 = toordinal (replace_day1 (month_turn_clock (Suc 1)))"
    by (rule conjunct2 [OF o [rule_format, OF one]])
  have r2: "month_turn_clock (Suc 1) = t_2024_04_01" by (simp add: month_turn_readings)
  have r1: "month_turn_clock (Suc 0) = t_2024_03_31" by (simp add: month_turn_readings)
  note s1 = month_turn_starts(2)
  note s0 = month_turn_starts(1)
  have k: "clock_in_range (\<lambda>k. t_2024_03_15)" by (rule clock_2024)
  note th2 = monthly_stats_six_entries [OF k, of pair_ops "[]"]
  note imp = th2 [THEN conjunct2, THEN conjunct2, THEN conjunct2]
  have "\<forall>i j. i < j \<and> j < 6 \<longrightarrow>
          toordinal (month_start_of t_2024_03_15 j) < toordinal (month_start_of t_2024_03_15 i)"
    by (rule mp [OF imp]) simp
  then have "(0 :: nat) < 1 \<and> (1 :: nat) < 6 \<longrightarrow>
          toordinal (month_start_of t_2024_03_15 1) < toordinal (month_start_of t_2024_03_15 0)"
    by (elim allE)
  then have lt: "toordinal (month_start_of t_2024_03_15 1) < toordinal (month_start_of t_2024_03_15 0)"
    by simp
  show ?thesis
    by (rule conjI [OF c conjI [OF e conjI [OF one conjI [OF o1 conjI [OF r2 conjI [OF s1
        conjI [OF r1 conjI [OF s0 conjI [OF k lt]]]]]]]]])
qed

text \<open>
  The six labels are not always the current month and the five before it: at 2024-03-15
  they are Oct, Nov, Dec, Jan, Jan, Mar, with January twice and no February.
\<close>

theorem monthly_labels_skip_february:
  "(case get_stats pair_ops (\<lambda>k. t_2024_03_15) [] of
      Inl e \<Rightarrow> []
    | Inr r \<Rightarrow> map m_month (monthly_stats r)) =
     [''Oct'', ''Nov'', ''Dec'', ''Jan'', ''Jan'', ''Mar'']
   \<and> map month_abbr (trailing_months (month t_2024_03_15)) =
     [''Oct'', ''Nov'', ''Dec'', ''Jan'', ''Feb'', ''Mar'']
   \<and> (case get_stats pair_ops (\<lambda>k. t_2024_03_15) [] of
      Inl e \<Rightarrow> []
    | Inr r \<Rightarrow> map m_month (monthly_stats r)) \<noteq>
     map month_abbr (trailing_months (month t_2024_03_15))"
proof -
  have a: "(case get_stats pair_ops (\<lambda>k. t_2024_03_15) [] of
      Inl e \<Rightarrow> []
    | Inr r \<Rightarrow> map m_month (monthly_stats r)) =
     [''Oct'', ''Nov'', ''Dec'', ''Jan'', ''Jan'', ''Mar'']"
    by (simp add: get_stats_ok [OF clock_2024] upt_0_6 windows_2024 m_month_entry month_abbr_eval)
  have b: "map month_abbr (trailing_months (month t_2024_03_15)) =
     [''Oct'', ''Nov'', ''Dec'', ''Jan'', ''Feb'', ''Mar'']"
    by (simp add: trailing_months_def t_2024_03_15_def month_abbr_def)
  show ?thesis unfolding a b by simp
qed

section \<open>Popular tones\<close>

lemma dict_get_map:
  "dict_get (map (\<lambda>t. (t, f t)) ks) x dflt = (if x \<in> set ks then f x else dflt)"
  by (induction ks) (auto simp: dict_get_def)

lemma dict_set_map_new:
  "x \<notin> set ks \<Longrightarrow> dict_set (map (\<lambda>t. (t, f t)) ks) x v = map (\<lambda>t. (t, f t)) ks @ [(x, v)]"
  by (induction ks) auto

lemma dict_set_map_old:
  "x \<in> set ks \<Longrightarrow> distinct ks \<Longrightarrow>
     dict_set (map (\<lambda>t. (t, f t)) ks) x v = map (\<lambda>t. (t, if t = x then v else f t)) ks"
  by (induction ks) auto

lemma first_seen_snoc:
  "first_seen (xs @ [x]) = (if x \<in> set xs then first_seen xs else first_seen xs @ [x])"
  by (simp add: first_seen_def)

lemma set_first_seen: "set (first_seen xs) = set xs"
  by (simp add: first_seen_def)

lemma distinct_first_seen: "distinct (first_seen xs)"
  by (simp add: first_seen_def)

lemma count_list_snoc: "count_list (xs @ [x]) t = count_list xs t + (if t = x then 1 else 0)"
  by (induction xs) auto

lemma Counter_snoc:
  "Counter (xs @ [x]) = dict_set (Counter xs) x (dict_get (Counter xs) x 0 + 1)"
  by (simp add: Counter_def)

lemma Counter_eq:
  "Counter xs = map (\<lambda>t. (t, int (count_list xs t))) (first_seen xs)"
proof (induction xs rule: rev_induct)
  case Nil
  then show ?case by (simp add: Counter_def first_seen_def)
next
  case (snoc x xs)
  show ?case
  proof (cases "x \<in> set xs")
    case True
    then show ?thesis
      by (simp add: Counter_snoc snoc.IH dict_get_map dict_set_map_old set_first_seen
          distinct_first_seen first_seen_snoc count_list_snoc)
  next
    case False
    then have "count_list xs x = 0" by (simp add: count_list_0_iff)
    with False show ?thesis
      by (auto simp: Counter_snoc snoc.IH dict_get_map dict_set_map_new set_first_seen
          first_seen_snoc count_list_snoc)
  qed
qed

lemma py_dict_snoc: "py_dict (ps @ [(k, v)]) = dict_set (py_dict ps) k v"
  by (simp add: py_dict_def)

lemma dict_set_new: "k \<notin> fst ` set m \<Longrightarrow> dict_set m k v = m @ [(k, v)]"
  by (induction m) auto

lemma py_dict_distinct: "distinct (map fst ps) \<Longrightarrow> py_dict ps = ps"
proof (induction ps rule: rev_induct)
  case Nil
  then show ?case by (simp add: py_dict_def)
next
  case (snoc p ps)
  obtain k v where p: "p = (k, v)" by (cases p)
  from snoc.prems have d: "distinct (map fst ps)" and k: "k \<notin> fst ` set ps" by (auto simp: p)
  show ?case using snoc.IH [OF d] k by (simp add: p py_dict_snoc dict_set_new)
qed

lemma distinct_keys_Counter: "distinct (map fst (Counter xs))"
  by (simp add: Counter_eq o_def distinct_first_seen)

lemma distinct_keys_sort_key:
  "distinct (map fst ps) \<Longrightarrow> distinct (map fst (sort_key f ps))"
  by (simp add: distinct_map)

lemma popular_tones_eq:
  "py_dict (most_common (Counter xs)) =
     sort_key (\<lambda>kc. - snd kc) (map (\<lambda>t. (t, int (count_list xs t))) (first_seen xs))"
proof -
  have "distinct (map fst (most_common (Counter xs)))"
    unfolding most_common_def by (intro distinct_keys_sort_key distinct_keys_Counter)
  then have "py_dict (most_common (Counter xs)) = most_common (Counter xs)"
    by (rule py_dict_distinct)
  then show ?thesis by (simp add: most_common_def Counter_eq)
qed

lemma ranked_pairs:
  fixes cnt :: "'a \<Rightarrow> int"
  assumes "distinct ks"
  defines "res \<equiv> sort_key (\<lambda>kc. - snd kc) (map (\<lambda>t. (t, cnt t)) ks)"
  shows "res = map (\<lambda>t. (t, cnt t)) (map fst res)"
    and "distinct (map fst res)"
    and "set (map fst res) = set ks"
    and "sorted_wrt (\<lambda>a b. snd b \<le> snd a) res"
    and "filter (\<lambda>kc. snd kc = c) res = map (\<lambda>t. (t, c)) (filter (\<lambda>t. cnt t = c) ks)"
proof -
  have s: "set res = (\<lambda>t. (t, cnt t)) ` set ks" by (simp add: res_def)
  then have "\<forall>p \<in> set res. (fst p, cnt (fst p)) = p" by auto
  then have "map (\<lambda>p. (fst p, cnt (fst p))) res = res" by (intro map_idI) simp
  then show "res = map (\<lambda>t. (t, cnt t)) (map fst res)" by (simp add: o_def)
  have "map fst (map (\<lambda>t. (t, cnt t)) ks) = ks" by (simp add: o_def)
  then show "distinct (map fst res)" unfolding res_def using assms(1)
    by (intro distinct_keys_sort_key) simp
  show "set (map fst res) = set ks" using s by (simp add: image_image)
  have "sorted (map (\<lambda>kc. - snd kc) res)" unfolding res_def by (rule sorted_sort_key)
  then show "sorted_wrt (\<lambda>a b. snd b \<le> snd a) res" by (simp add: sorted_map)
  have "filter (\<lambda>kc. - snd kc = - c) res = filter (\<lambda>kc. - snd kc = - c) (map (\<lambda>t. (t, cnt t)) ks)"
    unfolding res_def by (rule sort_key_stable)
  then have "filter (\<lambda>kc. snd kc = c) res = map (\<lambda>t. (t, cnt t)) (filter (\<lambda>t. cnt t = c) ks)"
    by (simp add: filter_map o_def)
  also have "\<dots> = map (\<lambda>t. (t, c)) (filter (\<lambda>t. cnt t = c) ks)" by (intro map_cong) simp_all
  finally show "filter (\<lambda>kc. snd kc = c) res = map (\<lambda>t. (t, c)) (filter (\<lambda>t. cnt t = c) ks)" .
qed

text \<open>
  C9.  Whenever the statistics handler returns (the clock readings lie in the years 2 to
  9998), \<open>popular_tones\<close> holds exactly one entry per distinct tone of the drafts, each
  tone paired with the number of drafts that carry it; the entries are in order of
  descending count, and the entries of any one count stand in the order in which their
  tones are first met in the draft sequence.  The tones a, b, a, c, a, b give
  a: 3, b: 2, c: 1, in that order.
\<close>

theorem popular_tones_order:
  assumes "clock_in_range clock"
  shows "(\<exists>r. get_stats fl clock drafts = Inr r
           \<and> popular_tones r =
               map (\<lambda>t. (t, int (count_list (map tone drafts) t))) (map fst (popular_tones r))
           \<and> distinct (map fst (popular_tones r))
           \<and> set (map fst (popular_tones r)) = set (map tone drafts)
           \<and> sorted_wrt (\<lambda>a b. snd b \<le> snd a) (popular_tones r)
           \<and> (\<forall>c. filter (\<lambda>kc. snd kc = c) (popular_tones r) =
                  map (\<lambda>t. (t, c))
                    (filter (\<lambda>t. int (count_list (map tone drafts) t) = c)
                       (first_seen (map tone drafts)))))
         \<and> py_dict (most_common (Counter [''a'', ''b'', ''a'', ''c'', ''a'', ''b''])) =
             [(''a'', 3), (''b'', 2), (''c'', 1)]"
proof -
  define tones where "tones = map tone drafts"
  define res where "res = py_dict (most_common (Counter tones))"
  have res: "res = sort_key (\<lambda>kc. - snd kc)
      (map (\<lambda>t. (t, int (count_list tones t))) (first_seen tones))"
    unfolding res_def by (rule popular_tones_eq)
  note rp = ranked_pairs [where ks = "first_seen tones"
      and cnt = "\<lambda>t. int (count_list tones t)", OF distinct_first_seen, folded res]
  have p1: "res = map (\<lambda>t. (t, int (count_list tones t))) (map fst res)" by (rule rp(1))
  have p2: "distinct (map fst res)" by (rule rp(2))
  have p3: "set (map fst res) = set tones" using rp(3) by (simp add: set_first_seen)
  have p4: "sorted_wrt (\<lambda>a b. snd b \<le> snd a) res" by (rule rp(4))
  have p5: "\<forall>c. filter (\<lambda>kc. snd kc = c) res =
      map (\<lambda>t. (t, c)) (filter (\<lambda>t. int (count_list tones t) = c) (first_seen tones))"
    using rp(5) by blast
  have ex: "py_dict (most_common (Counter [''a'', ''b'', ''a'', ''c'', ''a'', ''b''])) =
             [(''a'', 3), (''b'', 2), (''c'', 1)]"
    by (simp add: popular_tones_eq first_seen_def)
  have "\<exists>r. get_stats fl clock drafts = Inr r \<and> popular_tones r = res"
    by (simp add: get_stats_ok [OF assms] res_def tones_def)
  then obtain r where g: "get_stats fl clock drafts = Inr r" and pr: "popular_tones r = res"
    by blast
  have "get_stats fl clock drafts = Inr r
      \<and> res = map (\<lambda>t. (t, int (count_list tones t))) (map fst res)
      \<and> distinct (map fst res)
      \<and> set (map fst res) = set tones
      \<and> sorted_wrt (\<lambda>a b. snd b \<le> snd a) res
      \<and> (\<forall>c. filter (\<lambda>kc. snd kc = c) res =
             map (\<lambda>t. (t, c)) (filter (\<lambda>t. int (count_list tones t) = c) (first_seen tones)))"
    using g p1 p2 p3 p4 p5 by (intro conjI)
  then have "\<exists>r. get_stats fl clock drafts = Inr r
      \<and> popular_tones r = map (\<lambda>t. (t, int (count_list tones t))) (map fst (popular_tones r))
      \<and> distinct (map fst (popular_tones r))
      \<and> set (map fst (popular_tones r)) = set tones
      \<and> sorted_wrt (\<lambda>a b. snd b \<le> snd a) (popular_tones r)
      \<and> (\<forall>c. filter (\<lambda>kc. snd kc = c) (popular_tones r) =
             map (\<lambda>t. (t, c)) (filter (\<lambda>t. int (count_list tones t) = c) (first_seen tones)))"
    unfolding pr [symmetric] by (rule exI)
  then show ?thesis unfolding tones_def using ex by (rule conjI)
qed

theorem popular_tones_order_witness:
  "clock_in_range (\<lambda>k. t_2024_03_15)
   \<and> (\<exists>r. get_stats pair_ops (\<lambda>k. t_2024_03_15) [example_draft, draft_march] = Inr r
          \<and> popular_tones r = [(''formal'', 2)])"
proof -
  have c: "clock_in_range (\<lambda>k. t_2024_03_15)" by (rule clock_2024)
  from popular_tones_order [OF c, of pair_ops "[example_draft, draft_march]"] c
  show ?thesis
    by (auto simp: get_stats_ok [OF c] popular_tones_eq first_seen_def example_draft_def
        draft_march_def)
qed

end
